theory Spec2Isabelle
  imports Complex_Main "HOL-Library.Product_Lexorder" "HOL-Library.Multiset"
begin

section \<open>Data model of optimizer.py\<close>

text \<open>
  Python floats are modelled as exact rationals: the values that the source computes are
  taken without rounding, and \<open>inf\<close> and \<open>nan\<close> do not occur. The two places
  where rounding decides whether the run raises for positive inputs, the step of line 27
  and the divisor of line 165, follow the floating-point product (see
  \<open>float_product_is_zero\<close>).
  Exceptions are values of the type \<open>error\<close>.
\<close>

datatype error =
  ValueError_too_large    \<comment> \<open>line 156: the panel fits no empty stock sheet\<close>
  | Arange_zero_step      \<comment> \<open>lines 84, 85: \<open>np.arange\<close> raises on a step of zero\<close>
  | ZeroDivisionError     \<comment> \<open>line 165: the sheet has area zero\<close>

text \<open>Class \<open>Panel\<close>, lines 4 to 10.\<close>

record Panel =
  width :: rat
  height :: rat
  quantity :: int
  position :: "(rat \<times> rat) option"
  rotated :: bool

definition new_Panel :: "rat \<Rightarrow> rat \<Rightarrow> int \<Rightarrow> Panel" where
  "new_Panel pw ph q =
     \<lparr>width = pw, height = ph, quantity = q, position = None, rotated = False\<rparr>"

text \<open>
  An entry of \<open>used_space\<close>: the dictionary with the keys \<open>x\<close>, \<open>y\<close>, \<open>w\<close>,
  \<open>h\<close> and \<open>panel\<close> (lines 130 to 133). The key \<open>panel\<close> refers to the placed
  instance; the record holds that instance as it is after lines 134 to 136. An instance of
  the queue has quantity 1 (line 108), so it is placed once and nothing assigns to it
  afterwards.
\<close>

record OccupiedRect =
  rect_x :: rat
  rect_y :: rat
  rect_w :: rat
  rect_h :: rat
  rect_panel :: Panel

text \<open>Class \<open>StockSheet\<close>, lines 12 to 17.\<close>

record StockSheet =
  sheet_width :: rat
  sheet_height :: rat
  used_space :: "OccupiedRect list"
  efficiency :: rat

definition new_StockSheet :: "rat \<Rightarrow> rat \<Rightarrow> StockSheet" where
  "new_StockSheet W H =
     \<lparr>sheet_width = W, sheet_height = H, used_space = [], efficiency = 0\<rparr>"

section \<open>find_position\<close>

text \<open>
  The four locals \<open>can_place\<close>, \<open>best_x\<close>, \<open>best_y\<close>, \<open>best_rotated\<close> are one
  value: \<open>None\<close> while \<open>can_place\<close> is false (the source never reads the two
  infinities then), \<open>Some (best_x, best_y, best_rotated)\<close> once it is true.
\<close>

type_synonym best = "(rat \<times> rat \<times> bool) option"

text \<open>
  The product of two doubles is rounded to the nearest double, ties to even: it is
  \<open>0.0\<close> exactly when its exact value is at most \<open>2 ^ -1075\<close> in absolute
  value, half of the smallest subnormal \<open>2 ^ -1074\<close>.
\<close>

definition float_product_is_zero :: "rat \<Rightarrow> rat \<Rightarrow> bool" where
  "float_product_is_zero a b = (\<bar>a * b\<bar> \<le> 1 / 2 ^ 1075)"

text \<open>The double that the literal \<open>0.001\<close> denotes.\<close>

definition float_thousandth :: rat where
  "float_thousandth = 4611686018427388 / 2 ^ 62"

text \<open>
  Line 27. The step is \<open>0.0\<close> when the float product of the minimum and
  \<open>0.001\<close> underflows, and \<open>np.arange\<close> raises on it in lines 84, 85;
  otherwise the step is taken as the exact thousandth of the minimum.
\<close>

definition step_size :: "StockSheet \<Rightarrow> Panel \<Rightarrow> rat" where
  "step_size sheet panel =
     (let m = min (min (min (width panel) (height panel)) (sheet_width sheet))
                (sheet_height sheet)
      in if float_product_is_zero m float_thousandth then 0 else m * (1 / 1000))"

text \<open>Lines 30 to 38: the list of orientations and its stable sort.\<close>

definition orientation_key :: "StockSheet \<Rightarrow> rat \<times> rat \<times> bool \<Rightarrow> rat \<times> rat" where
  "orientation_key sheet = (\<lambda>(w, h, rot).
     (- (if w \<le> sheet_width sheet then w else 0),
      - (if h \<le> sheet_height sheet then h else 0)))"

definition orientations :: "StockSheet \<Rightarrow> Panel \<Rightarrow> (rat \<times> rat \<times> bool) list" where
  "orientations sheet panel =
     sort_key (orientation_key sheet)
       ((width panel, height panel, False) #
        (if width panel \<noteq> height panel then [(height panel, width panel, True)] else []))"

text \<open>Lines 70, 71 and 88, 89: the test under \<open>not\<close>, against one used rectangle.\<close>

definition apart :: "rat \<Rightarrow> rat \<Rightarrow> rat \<Rightarrow> rat \<Rightarrow> OccupiedRect \<Rightarrow> bool" where
  "apart x y w h used =
     (x + w \<le> rect_x used \<or> x \<ge> rect_x used + rect_w used \<or>
      y + h \<le> rect_y used \<or> y \<ge> rect_y used + rect_h used)"

text \<open>Lines 68 to 73 and 86 to 91: the flag \<open>valid\<close> after the inner loop.\<close>

definition valid :: "StockSheet \<Rightarrow> rat \<Rightarrow> rat \<Rightarrow> rat \<times> rat \<Rightarrow> bool" where
  "valid sheet w h = (\<lambda>(x, y). list_all (apart x y w h) (used_space sheet))"

text \<open>Lines 75 to 80 and 93 to 98: one candidate against the best so far.\<close>

definition update_best :: "StockSheet \<Rightarrow> rat \<Rightarrow> rat \<Rightarrow> bool \<Rightarrow> rat \<times> rat \<Rightarrow> best \<Rightarrow> best" where
  "update_best sheet w h rot = (\<lambda>(x, y) st.
     if valid sheet w h (x, y) then
       (case st of
          None \<Rightarrow> Some (x, y, rot)
        | Some (best_x, best_y, best_rotated) \<Rightarrow>
            if y < best_y \<or> (y = best_y \<and> x < best_x) then Some (x, y, rot) else st)
     else st)"

text \<open>Lines 46 to 64.\<close>

definition priority_positions :: "StockSheet \<Rightarrow> rat \<Rightarrow> rat \<Rightarrow> (rat \<times> rat) list" where
  "priority_positions sheet w h =
     filter (\<lambda>(x, y). 0 \<le> x \<and> x \<le> sheet_width sheet - w \<and> 0 \<le> y \<and> y \<le> sheet_height sheet - h)
       ([(0, 0), (sheet_width sheet - w, 0), (0, sheet_height sheet - h),
         (sheet_width sheet - w, sheet_height sheet - h)] @
        concat (map (\<lambda>used. [(rect_x used + rect_w used, rect_y used),
                              (rect_x used, rect_y used + rect_h used)]) (used_space sheet)))"

text \<open>
  \<open>np.arange(0, stop, step)\<close> for a step other than zero: the values \<open>i * step\<close> for
  \<open>0 \<le> i < ceil (stop / step)\<close>.
\<close>

definition arange :: "rat \<Rightarrow> rat \<Rightarrow> rat list" where
  "arange stop step = map (\<lambda>i. rat_of_nat i * step) [0..<nat \<lceil>stop / step\<rceil>]"

text \<open>Lines 84 to 98, for a step other than zero.\<close>

definition grid_positions :: "StockSheet \<Rightarrow> rat \<Rightarrow> rat \<Rightarrow> rat \<Rightarrow> (rat \<times> rat) list" where
  "grid_positions sheet w h step =
     concat (map (\<lambda>x. map (\<lambda>y. (x, y)) (arange (sheet_height sheet - h + step) step))
       (arange (sheet_width sheet - w + step) step))"

text \<open>Lines 41 to 98: the body of the loop over the orientations.\<close>

definition try_orientation ::
  "StockSheet \<Rightarrow> rat \<Rightarrow> rat \<times> rat \<times> bool \<Rightarrow> best \<Rightarrow> error + best" where
  "try_orientation sheet step = (\<lambda>(w, h, rot) st.
     if w > sheet_width sheet \<or> h > sheet_height sheet then Inr st
     else
       (let st1 = fold (update_best sheet w h rot) (priority_positions sheet w h) st in
        if st1 = None then
          (if step = 0 then Inl Arange_zero_step
           else Inr (fold (update_best sheet w h rot) (grid_positions sheet w h step) st1))
        else Inr st1))"

fun for_orientations ::
  "StockSheet \<Rightarrow> rat \<Rightarrow> (rat \<times> rat \<times> bool) list \<Rightarrow> best \<Rightarrow> error + best" where
  "for_orientations sheet step [] st = Inr st"
| "for_orientations sheet step (orient # rest) st =
     (case try_orientation sheet step orient st of
        Inl e \<Rightarrow> Inl e
      | Inr st' \<Rightarrow> for_orientations sheet step rest st')"

definition find_position :: "StockSheet \<Rightarrow> Panel \<Rightarrow> error + best" where
  "find_position sheet panel =
     for_orientations sheet (step_size sheet panel) (orientations sheet panel) None"

section \<open>optimize_layout\<close>

text \<open>Lines 105 to 108.\<close>

definition expand :: "Panel list \<Rightarrow> Panel list" where
  "expand panels =
     concat (map (\<lambda>panel. replicate (nat (quantity panel))
                            (new_Panel (width panel) (height panel) 1)) panels)"

text \<open>Lines 111 to 115.\<close>

definition sort_tuple :: "Panel \<Rightarrow> rat \<times> rat \<times> rat" where
  "sort_tuple p =
     (- max (width p) (height p), - (width p * height p), - min (width p) (height p))"

definition panels_copy :: "Panel list \<Rightarrow> Panel list" where
  "panels_copy panels = sort_key sort_tuple (expand panels)"

text \<open>Lines 128 to 136 and 145 to 153: the rectangle is appended, the instance updated.\<close>

definition place :: "StockSheet \<Rightarrow> Panel \<Rightarrow> rat \<times> rat \<times> bool \<Rightarrow> StockSheet \<times> Panel" where
  "place sheet panel = (\<lambda>(x, y, rot).
     (let w = (if rot then height panel else width panel);
          h = (if rot then width panel else height panel);
          panel' = panel\<lparr>quantity := quantity panel - 1, position := Some (x, y),
                         rotated := rot\<rparr>
      in (sheet\<lparr>used_space := used_space sheet @
                  [\<lparr>rect_x = x, rect_y = y, rect_w = w, rect_h = h, rect_panel = panel'\<rparr>]\<rparr>,
          panel')))"

text \<open>
  Lines 125 to 138: the loop over the existing sheets. \<open>None\<close> is \<open>placed = False\<close>
  after the loop.
\<close>

fun try_sheets :: "StockSheet list \<Rightarrow> Panel \<Rightarrow> error + (StockSheet list \<times> Panel) option" where
  "try_sheets [] panel = Inr None"
| "try_sheets (sheet # sheets) panel =
     (case find_position sheet panel of
        Inl e \<Rightarrow> Inl e
      | Inr (Some pos) \<Rightarrow>
          (case place sheet panel pos of (sheet', panel') \<Rightarrow> Inr (Some (sheet' # sheets, panel')))
      | Inr None \<Rightarrow>
          (case try_sheets sheets panel of
             Inl e \<Rightarrow> Inl e
           | Inr None \<Rightarrow> Inr None
           | Inr (Some (sheets', panel')) \<Rightarrow> Inr (Some (sheet # sheets', panel'))))"

text \<open>Lines 121 to 156: one pass of the body of the while loop, up to the pop.\<close>

definition place_panel ::
  "rat \<Rightarrow> rat \<Rightarrow> StockSheet list \<Rightarrow> Panel \<Rightarrow> error + StockSheet list \<times> Panel" where
  "place_panel stock_width stock_height sheets panel =
     (case try_sheets sheets panel of
        Inl e \<Rightarrow> Inl e
      | Inr (Some r) \<Rightarrow> Inr r
      | Inr None \<Rightarrow>
          (case find_position (new_StockSheet stock_width stock_height) panel of
             Inl e \<Rightarrow> Inl e
           | Inr (Some pos) \<Rightarrow>
               (case place (new_StockSheet stock_width stock_height) panel pos of
                  (new_sheet, panel') \<Rightarrow> Inr (sheets @ [new_sheet], panel'))
           | Inr None \<Rightarrow> Inl ValueError_too_large))"

text \<open>
  Lines 120 to 160: the while loop. The head of the queue is popped only when its
  quantity has reached zero, so the loop is defined without a termination argument and
  \<open>None\<close> stands for a run that never returns. The two stock dimensions are passed
  as the pair \<open>stock\<close>.
\<close>

partial_function (option) allocate ::
  "rat \<times> rat \<Rightarrow> StockSheet list \<Rightarrow> Panel list \<Rightarrow> (error + StockSheet list) option" where
  "allocate stock sheets remaining_panels =
     (case remaining_panels of
        [] \<Rightarrow> Some (Inr sheets)
      | panel # rest \<Rightarrow>
          (case place_panel (fst stock) (snd stock) sheets panel of
             Inl e \<Rightarrow> Some (Inl e)
           | Inr r \<Rightarrow>
               allocate stock (fst r)
                 (if quantity (snd r) = 0 then rest else snd r # rest)))"

declare allocate.simps [code]

text \<open>
  Line 165 divides by the float product \<open>sheet.width * sheet.height\<close>, and Python
  raises \<open>ZeroDivisionError\<close> when that product is \<open>0.0\<close>
  (\<open>float_product_is_zero\<close>). So the division also raises for positive
  dimensions whose product underflows.
\<close>

text \<open>Lines 163 to 165.\<close>

definition used_area :: "StockSheet \<Rightarrow> rat" where
  "used_area sheet = sum_list (map (\<lambda>space. rect_w space * rect_h space) (used_space sheet))"

fun calc_efficiency :: "StockSheet list \<Rightarrow> error + StockSheet list" where
  "calc_efficiency [] = Inr []"
| "calc_efficiency (sheet # sheets) =
     (if float_product_is_zero (sheet_width sheet) (sheet_height sheet)
      then Inl ZeroDivisionError
      else
        (case calc_efficiency sheets of
           Inl e \<Rightarrow> Inl e
         | Inr sheets' \<Rightarrow>
             Inr (sheet\<lparr>efficiency :=
                    used_area sheet / (sheet_width sheet * sheet_height sheet) * 100\<rparr> # sheets')))"

definition optimize_layout ::
  "rat \<Rightarrow> rat \<Rightarrow> Panel list \<Rightarrow> (error + StockSheet list) option" where
  "optimize_layout stock_width stock_height panels =
     (case allocate (stock_width, stock_height) [new_StockSheet stock_width stock_height]
             (panels_copy panels) of
        None \<Rightarrow> None
      | Some (Inl e) \<Rightarrow> Some (Inl e)
      | Some (Inr sheets) \<Rightarrow> Some (calc_efficiency sheets))"

section \<open>Definitions for the statements and their proofs\<close>

text \<open>
  Every instance of the queue is created with quantity 1 (line 108), so each pass of the
  while loop pops its head. \<open>place_all\<close> is the loop under that condition; it is
  shown below to be what \<open>allocate\<close> computes on such a queue.
\<close>

fun place_all :: "rat \<Rightarrow> rat \<Rightarrow> StockSheet list \<Rightarrow> Panel list \<Rightarrow> error + StockSheet list" where
  "place_all W H sheets [] = Inr sheets"
| "place_all W H sheets (panel # rest) =
     (case place_panel W H sheets panel of
        Inl e \<Rightarrow> Inl e
      | Inr r \<Rightarrow> place_all W H (fst r) rest)"

text \<open>The width and the height that an orientation gives the panel (lines 30 to 32, 128, 129).\<close>

definition oriented_w :: "Panel \<Rightarrow> bool \<Rightarrow> rat" where
  "oriented_w panel rot = (if rot then height panel else width panel)"

definition oriented_h :: "Panel \<Rightarrow> bool \<Rightarrow> rat" where
  "oriented_h panel rot = (if rot then width panel else height panel)"

text \<open>The position held in the locals, if any, passes the overlap test of its orientation.\<close>

definition best_valid :: "StockSheet \<Rightarrow> Panel \<Rightarrow> best \<Rightarrow> bool" where
  "best_valid sheet panel st =
     (case st of
        None \<Rightarrow> True
      | Some (x, y, rot) \<Rightarrow> valid sheet (oriented_w panel rot) (oriented_h panel rot) (x, y))"

text \<open>Each rectangle of a list passes the test of lines 70 and 71 against every earlier one.\<close>

fun no_overlap :: "OccupiedRect list \<Rightarrow> bool" where
  "no_overlap [] = True"
| "no_overlap (r # rs) =
     (list_all (\<lambda>r'. apart (rect_x r') (rect_y r') (rect_w r') (rect_h r') r) rs \<and> no_overlap rs)"

text \<open>The open rectangle that a placed rectangle covers.\<close>

definition interior :: "OccupiedRect \<Rightarrow> (rat \<times> rat) set" where
  "interior r = {(px, py). rect_x r < px \<and> px < rect_x r + rect_w r \<and>
                           rect_y r < py \<and> py < rect_y r + rect_h r}"

text \<open>A panel fits the empty stock sheet in one of its two orientations.\<close>

definition fits_stock :: "rat \<Rightarrow> rat \<Rightarrow> Panel \<Rightarrow> bool" where
  "fits_stock W H p = ((width p \<le> W \<and> height p \<le> H) \<or> (height p \<le> W \<and> width p \<le> H))"

text \<open>The dimensions of the instances that the rectangles of a list of sheets refer to.\<close>

definition placed_instances :: "StockSheet list \<Rightarrow> (rat \<times> rat) multiset" where
  "placed_instances sheets =
     mset (map (\<lambda>r. (width (rect_panel r), height (rect_panel r)))
             (concat (map used_space sheets)))"

text \<open>
  The candidates of \<open>find_position\<close> in the words of C2: every orientation that
  fits contributes its valid priority positions, or, when it has none, its valid grid
  positions, whatever the other orientation found.
\<close>

definition claimed_candidates_of ::
  "StockSheet \<Rightarrow> rat \<Rightarrow> rat \<times> rat \<times> bool \<Rightarrow> (rat \<times> rat \<times> bool) list" where
  "claimed_candidates_of sheet step = (\<lambda>(w, h, rot).
     if w > sheet_width sheet \<or> h > sheet_height sheet then []
     else
       (let prio = filter (valid sheet w h) (priority_positions sheet w h) in
        map (\<lambda>(x, y). (x, y, rot))
          (if prio = [] then filter (valid sheet w h) (grid_positions sheet w h step) else prio)))"

definition claimed_candidates :: "StockSheet \<Rightarrow> Panel \<Rightarrow> (rat \<times> rat \<times> bool) list" where
  "claimed_candidates sheet panel =
     concat (map (claimed_candidates_of sheet (step_size sheet panel)) (orientations sheet panel))"

text \<open>
  The candidates that the source examines: the orientations in their sorted order, each
  with its valid priority positions, and with its valid grid positions only while nothing
  has been found, by this orientation or by an earlier one. \<open>found\<close> holds the
  candidates of the orientations already searched.
\<close>

fun searched_candidates ::
  "StockSheet \<Rightarrow> rat \<Rightarrow> (rat \<times> rat \<times> bool) list \<Rightarrow> (rat \<times> rat \<times> bool) list \<Rightarrow>
   (rat \<times> rat \<times> bool) list" where
  "searched_candidates sheet step [] found = found"
| "searched_candidates sheet step ((w, h, rot) # rest) found =
     (if w > sheet_width sheet \<or> h > sheet_height sheet
      then searched_candidates sheet step rest found
      else
        (let found1 = found @ map (\<lambda>(x, y). (x, y, rot))
                                (filter (valid sheet w h) (priority_positions sheet w h))
         in searched_candidates sheet step rest
              (if found1 = []
               then map (\<lambda>(x, y). (x, y, rot))
                      (filter (valid sheet w h) (grid_positions sheet w h step))
               else found1)))"

text \<open>
  \<open>is_best cands st\<close>: the result \<open>st\<close> is a candidate that no candidate
  precedes in the order (y, then x), or there is no candidate and no result.
\<close>

definition is_best :: "(rat \<times> rat \<times> bool) list \<Rightarrow> best \<Rightarrow> bool" where
  "is_best cands st =
     (case st of
        None \<Rightarrow> cands = []
      | Some (x, y, rot) \<Rightarrow>
          (x, y, rot) \<in> set cands \<and>
          list_all (\<lambda>(x', y', rot'). y < y' \<or> (y = y' \<and> x \<le> x')) cands)"

text \<open>An orientation does not fit the sheet, or neither of its two phases has a valid position.\<close>

definition both_phases_fail :: "StockSheet \<Rightarrow> rat \<Rightarrow> rat \<times> rat \<times> bool \<Rightarrow> bool" where
  "both_phases_fail sheet step = (\<lambda>(w, h, rot).
     w > sheet_width sheet \<or> h > sheet_height sheet \<or>
     (filter (valid sheet w h) (priority_positions sheet w h) = [] \<and>
      filter (valid sheet w h) (grid_positions sheet w h step) = []))"

text \<open>
  Concrete sheets for the examples. \<open>sheet_80\<close> and \<open>strip_sheet\<close> and
  \<open>half_sheet\<close> are stock sheets after one placement, before the efficiency is
  computed; \<open>overshoot_sheet\<close> and \<open>touching_sheet\<close> are sheets as
  returned; \<open>narrow_sheet\<close> holds two small rectangles, inside the sheet and
  apart from each other, that block every priority position of \<open>narrow_panel\<close>,
  a panel nearly as large as the sheet, in both orientations; \<open>thin_sheet\<close>
  is a stock sheet of width \<open>2 ^ -1070\<close> after one placement.
\<close>

definition sheet_80 :: StockSheet where
  "sheet_80 = \<lparr>sheet_width = 100, sheet_height = 100,
      used_space = [\<lparr>rect_x = 0, rect_y = 0, rect_w = 80, rect_h = 80,
         rect_panel = \<lparr>width = 80, height = 80, quantity = 0, position = Some (0, 0), rotated = False\<rparr>\<rparr>],
      efficiency = 0\<rparr>"

definition strip_sheet :: StockSheet where
  "strip_sheet = \<lparr>sheet_width = 4000, sheet_height = 3000,
      used_space = [\<lparr>rect_x = 0, rect_y = 0, rect_w = 4000, rect_h = 2,
         rect_panel = \<lparr>width = 4000, height = 2, quantity = 0, position = Some (0, 0), rotated = False\<rparr>\<rparr>],
      efficiency = 0\<rparr>"

definition overshoot_sheet :: StockSheet where
  "overshoot_sheet = \<lparr>sheet_width = 4000, sheet_height = 3000,
      used_space =
        [\<lparr>rect_x = 0, rect_y = 0, rect_w = 4000, rect_h = 2,
           rect_panel = \<lparr>width = 4000, height = 2, quantity = 0, position = Some (0, 0),
                          rotated = False\<rparr>\<rparr>,
         \<lparr>rect_x = 0, rect_y = 2999 / 1000, rect_w = 3999, rect_h = 2999,
           rect_panel = \<lparr>width = 3999, height = 2999, quantity = 0,
                          position = Some (0, 2999 / 1000), rotated = False\<rparr>\<rparr>],
      efficiency = 12001001 / 120000\<rparr>"

definition half_sheet :: StockSheet where
  "half_sheet = \<lparr>sheet_width = 100, sheet_height = 100,
      used_space =
        [\<lparr>rect_x = 0, rect_y = 0, rect_w = 50, rect_h = 50,
           rect_panel = \<lparr>width = 50, height = 50, quantity = 0, position = Some (0, 0),
                          rotated = False\<rparr>\<rparr>],
      efficiency = 0\<rparr>"

definition touching_sheet :: StockSheet where
  "touching_sheet = \<lparr>sheet_width = 100, sheet_height = 100,
      used_space =
        [\<lparr>rect_x = 0, rect_y = 0, rect_w = 50, rect_h = 50,
           rect_panel = \<lparr>width = 50, height = 50, quantity = 0, position = Some (0, 0),
                          rotated = False\<rparr>\<rparr>,
         \<lparr>rect_x = 50, rect_y = 0, rect_w = 50, rect_h = 50,
           rect_panel = \<lparr>width = 50, height = 50, quantity = 0, position = Some (50, 0),
                          rotated = False\<rparr>\<rparr>],
      efficiency = 50\<rparr>"

definition narrow_sheet :: StockSheet where
  "narrow_sheet = \<lparr>sheet_width = 2003, sheet_height = 2003,
      used_space =
        [\<lparr>rect_x = 1 / 2, rect_y = 1 / 2, rect_w = 1, rect_h = 3 / 2,
           rect_panel = \<lparr>width = 1, height = 3 / 2, quantity = 0,
                          position = Some (1 / 2, 1 / 2), rotated = False\<rparr>\<rparr>,
         \<lparr>rect_x = 2002, rect_y = 2002, rect_w = 1, rect_h = 1,
           rect_panel = \<lparr>width = 1, height = 1, quantity = 0, position = Some (2002, 2002),
                          rotated = False\<rparr>\<rparr>],
      efficiency = 0\<rparr>"

definition narrow_panel :: Panel where
  "narrow_panel = new_Panel 2003 2000 1"

definition thin_sheet :: StockSheet where
  "thin_sheet = \<lparr>sheet_width = 1 / 2 ^ 1070, sheet_height = 1,
      used_space =
        [\<lparr>rect_x = 0, rect_y = 0, rect_w = 1 / 2 ^ 1070, rect_h = 3 / 4,
           rect_panel = \<lparr>width = 1 / 2 ^ 1070, height = 3 / 4, quantity = 0,
                          position = Some (0, 0), rotated = False\<rparr>\<rparr>],
      efficiency = 0\<rparr>"

section \<open>The run always returns\<close>

lemma place_quantity: "quantity (snd (place sheet panel pos)) = quantity panel - 1"
  by (cases pos) (simp add: place_def Let_def)

lemma try_sheets_quantity:
  "try_sheets sheets panel = Inr (Some (sheets', panel')) \<Longrightarrow> quantity panel' = quantity panel - 1"
proof (induction sheets arbitrary: sheets')
  case Nil
  then show ?case by simp
next
  case (Cons sheet sheets)
  show ?case
  proof (cases "find_position sheet panel")
    case (Inl e)
    with Cons.prems show ?thesis by simp
  next
    case (Inr found)
    show ?thesis
    proof (cases found)
      case None
      with Inr Cons.prems Cons.IH show ?thesis
        by (auto split: sum.splits option.splits)
    next
      case (Some pos)
      with Inr Cons.prems place_quantity [of sheet panel pos] show ?thesis
        by (auto split: prod.splits)
    qed
  qed
qed

lemma place_panel_quantity:
  "place_panel W H sheets panel = Inr (sheets', panel') \<Longrightarrow> quantity panel' = quantity panel - 1"
  unfolding place_panel_def
  using try_sheets_quantity [of sheets panel] place_quantity [of "new_StockSheet W H" panel]
  by (auto split: sum.splits option.splits prod.splits) (metis snd_conv)+

lemma allocate_unit:
  "\<forall>p \<in> set queue. quantity p = 1 \<Longrightarrow>
   allocate (W, H) sheets queue = Some (place_all W H sheets queue)"
proof (induction queue arbitrary: sheets)
  case Nil
  show ?case by (subst allocate.simps) simp
next
  case (Cons panel rest)
  show ?case
  proof (cases "place_panel W H sheets panel")
    case (Inl e)
    then show ?thesis by (subst allocate.simps) simp
  next
    case (Inr r)
    obtain sheets' panel' where r: "r = (sheets', panel')" by (cases r)
    from Inr r Cons.prems have "quantity panel' = 0"
      using place_panel_quantity [of W H sheets panel sheets' panel'] by simp
    with Inr r Cons show ?thesis by (subst allocate.simps) simp
  qed
qed

lemma expand_quantity: "p \<in> set (expand panels) \<Longrightarrow> quantity p = 1"
  by (auto simp: expand_def new_Panel_def)

lemma panels_copy_quantity: "p \<in> set (panels_copy panels) \<Longrightarrow> quantity p = 1"
  by (simp add: panels_copy_def expand_quantity)

lemma optimize_layout_eq:
  "optimize_layout W H panels =
     Some (case place_all W H [new_StockSheet W H] (panels_copy panels) of
             Inl e \<Rightarrow> Inl e
           | Inr sheets \<Rightarrow> calc_efficiency sheets)"
  unfolding optimize_layout_def
  by (simp add: allocate_unit panels_copy_quantity split: sum.splits)

section \<open>Folding candidates into the best position\<close>

lemma fold_update_best_invalid:
  "list_all (\<lambda>p. \<not> valid sheet w h p) ps \<Longrightarrow> fold (update_best sheet w h rot) ps st = st"
  by (induction ps arbitrary: st) (auto simp: update_best_def)

lemma fold_update_best_filter:
  "fold (update_best sheet w h rot) ps st =
   fold (update_best sheet w h rot) (filter (valid sheet w h) ps) st"
  by (induction ps arbitrary: st) (auto simp: update_best_def)

lemma update_best_keeps:
  "\<exists>x y r. update_best sheet w h rot p (Some (bx, by, br)) = Some (x, y, r)"
  by (cases p) (simp add: update_best_def)

lemma fold_update_best_keeps:
  "\<exists>x y r. fold (update_best sheet w h rot) ps (Some (bx, by, br)) = Some (x, y, r)"
proof (induction ps arbitrary: bx "by" br)
  case Nil
  show ?case by simp
next
  case (Cons p ps)
  obtain x1 y1 r1 where
    "update_best sheet w h rot p (Some (bx, by, br)) = Some (x1, y1, r1)"
    using update_best_keeps by blast
  with Cons.IH [of x1 y1 r1] show ?case by simp
qed

lemma orientations_set:
  "orient \<in> set (orientations sheet panel) \<Longrightarrow>
   \<exists>rot. orient = (oriented_w panel rot, oriented_h panel rot, rot)"
  by (auto simp: orientations_def oriented_w_def oriented_h_def split: if_splits)

lemma orientations_set_eq:
  "set (orientations sheet panel) =
     {(width panel, height panel, False)} \<union>
     (if width panel \<noteq> height panel then {(height panel, width panel, True)} else {})"
  by (simp only: orientations_def set_sort) auto

lemma update_best_valid:
  "best_valid sheet panel st \<Longrightarrow>
   best_valid sheet panel (update_best sheet (oriented_w panel rot) (oriented_h panel rot) rot p st)"
  by (cases p) (auto simp: update_best_def best_valid_def split: option.splits)

lemma fold_update_best_valid:
  "best_valid sheet panel st \<Longrightarrow>
   best_valid sheet panel
     (fold (update_best sheet (oriented_w panel rot) (oriented_h panel rot) rot) ps st)"
  by (induction ps arbitrary: st) (simp_all add: update_best_valid)

section \<open>The grid of the fallback scan\<close>

lemma arange_bounds:
  assumes "0 < step" and "v \<in> set (arange stop step)"
  shows "0 \<le> v \<and> v < stop"
proof -
  from assms(2) obtain i where i: "i < nat \<lceil>stop / step\<rceil>" and v: "v = rat_of_nat i * step"
    by (auto simp: arange_def)
  from i have "int i < \<lceil>stop / step\<rceil>" by linarith
  then have "rat_of_int (int i) < stop / step" by (simp only: less_ceiling_iff)
  then have "rat_of_nat i * step < stop" using assms(1) by (simp add: pos_less_divide_eq)
  moreover have "0 \<le> rat_of_nat i * step" using assms(1) by simp
  ultimately show ?thesis using v by simp
qed

lemma grid_positions_bounds:
  assumes "0 < step" and "(x, y) \<in> set (grid_positions sheet w h step)"
  shows "0 \<le> x \<and> x < sheet_width sheet - w + step \<and> 0 \<le> y \<and> y < sheet_height sheet - h + step"
  using assms arange_bounds [of step x "sheet_width sheet - w + step"]
    arange_bounds [of step y "sheet_height sheet - h + step"]
  by (auto simp: grid_positions_def)

lemma ceiling_rat_numeral:
  "\<lceil>numeral a / numeral b :: rat\<rceil> = - (- numeral a div numeral b)"
  using ceiling_divide_eq_div [of "numeral a" "numeral b", where ?'a = rat] by simp

lemma arange_set:
  "v \<in> set (arange stop step) \<longleftrightarrow> (\<exists>i. i < nat \<lceil>stop / step\<rceil> \<and> v = rat_of_nat i * step)"
  by (auto simp: arange_def)

lemma grid_positions_lattice:
  "(x, y) \<in> set (grid_positions sheet w h step) \<longleftrightarrow>
     (\<exists>i j. i < nat \<lceil>(sheet_width sheet - w + step) / step\<rceil> \<and>
            j < nat \<lceil>(sheet_height sheet - h + step) / step\<rceil> \<and>
            x = rat_of_nat i * step \<and> y = rat_of_nat j * step)"
proof -
  have "(x, y) \<in> set (grid_positions sheet w h step) \<longleftrightarrow>
      x \<in> set (arange (sheet_width sheet - w + step) step) \<and>
      y \<in> set (arange (sheet_height sheet - h + step) step)"
    by (auto simp: grid_positions_def)
  then show ?thesis by (simp only: arange_set) blast
qed

lemma step_size_Min:
  "step_size sheet panel \<noteq> 0 \<Longrightarrow> step_size sheet panel =
     (1 / 1000) * Min {width panel, height panel, sheet_width sheet, sheet_height sheet}"
  by (simp add: step_size_def Let_def min.assoc min.commute min.left_commute
      split: if_splits)

lemma step_size_normal:
  assumes "1 \<le> min (min (min (width panel) (height panel)) (sheet_width sheet))
             (sheet_height sheet)"
  shows "step_size sheet panel =
     min (min (min (width panel) (height panel)) (sheet_width sheet)) (sheet_height sheet)
       * (1 / 1000)"
proof -
  define m where
    "m = min (min (min (width panel) (height panel)) (sheet_width sheet)) (sheet_height sheet)"
  have c: "(1 :: rat) / 2 ^ 1075 < float_thousandth"
    by (simp add: float_thousandth_def)
  have "0 < float_thousandth" by (simp add: float_thousandth_def)
  with assms have "float_thousandth \<le> m * float_thousandth"
    by (simp add: m_def)
  with c have "1 / 2 ^ 1075 < m * float_thousandth" by (rule less_le_trans)
  then have "\<not> float_product_is_zero m float_thousandth"
    by (simp add: float_product_is_zero_def)
  then show ?thesis by (simp add: step_size_def Let_def m_def)
qed

lemma step_size_new_Panel:
  "step_size sheet (new_Panel (width p) (height p) q) = step_size sheet p"
  by (simp add: step_size_def new_Panel_def)

lemma step_size_dims:
  "sheet_width s = sheet_width s' \<Longrightarrow> sheet_height s = sheet_height s' \<Longrightarrow>
   step_size s panel = step_size s' panel"
  by (simp add: step_size_def)

section \<open>What find_position returns\<close>

lemma try_orientation_skip:
  "w > sheet_width sheet \<or> h > sheet_height sheet \<Longrightarrow>
   try_orientation sheet step (w, h, rot) st = Inr st"
  by (simp add: try_orientation_def)

lemma try_orientation_no_error:
  "step \<noteq> 0 \<Longrightarrow> \<exists>st'. try_orientation sheet step orient st = Inr st'"
  by (cases orient) (simp add: try_orientation_def Let_def)

lemma try_orientation_keeps:
  "\<exists>x y r. try_orientation sheet step orient (Some (bx, by, br)) = Inr (Some (x, y, r))"
proof -
  obtain w h rot where orient: "orient = (w, h, rot)" by (cases orient)
  obtain x y r where
    "fold (update_best sheet w h rot) (priority_positions sheet w h) (Some (bx, by, br)) =
       Some (x, y, r)"
    using fold_update_best_keeps by blast
  then show ?thesis by (simp add: orient try_orientation_def Let_def)
qed

lemma try_orientation_filtered:
  assumes "w \<le> sheet_width sheet" and "h \<le> sheet_height sheet"
  shows "try_orientation sheet step (w, h, rot) st =
     (let st1 = fold (update_best sheet w h rot)
                  (filter (valid sheet w h) (priority_positions sheet w h)) st
      in if st1 = None then
           (if step = 0 then Inl Arange_zero_step
            else Inr (fold (update_best sheet w h rot)
                        (filter (valid sheet w h) (grid_positions sheet w h step)) st1))
         else Inr st1)"
  using assms
  by (simp add: try_orientation_def Let_def fold_update_best_filter [symmetric])

lemma try_orientation_valid:
  assumes "best_valid sheet panel st"
    and "try_orientation sheet step (oriented_w panel rot, oriented_h panel rot, rot) st = Inr st'"
  shows "best_valid sheet panel st'"
proof -
  have none: "best_valid sheet panel None" by (simp add: best_valid_def)
  show ?thesis
    using assms fold_update_best_valid [OF assms(1), of rot] fold_update_best_valid [OF none, of rot]
    by (auto simp: try_orientation_def Let_def split: if_splits)
qed

lemma for_orientations_valid:
  assumes "\<forall>orient \<in> set os. \<exists>rot. orient = (oriented_w panel rot, oriented_h panel rot, rot)"
    and "best_valid sheet panel st"
    and "for_orientations sheet step os st = Inr st'"
  shows "best_valid sheet panel st'"
  using assms
proof (induction os arbitrary: st)
  case Nil
  then show ?case by simp
next
  case (Cons orient rest)
  from Cons.prems(1) obtain rot where
    orient: "orient = (oriented_w panel rot, oriented_h panel rot, rot)" by auto
  from Cons.prems(3) obtain st1 where
    st1: "try_orientation sheet step orient st = Inr st1"
    and rest: "for_orientations sheet step rest st1 = Inr st'"
    by (auto split: sum.splits)
  from st1 orient Cons.prems(2) have "best_valid sheet panel st1"
    using try_orientation_valid by simp
  with Cons.IH rest Cons.prems(1) show ?case by simp
qed

lemma find_position_valid:
  assumes "find_position sheet panel = Inr (Some (x, y, rot))"
  shows "valid sheet (oriented_w panel rot) (oriented_h panel rot) (x, y)"
proof -
  have "best_valid sheet panel (Some (x, y, rot))"
    using for_orientations_valid [of "orientations sheet panel" panel sheet None
        "step_size sheet panel" "Some (x, y, rot)"] assms orientations_set
    by (auto simp: find_position_def best_valid_def)
  then show ?thesis by (simp add: best_valid_def)
qed

lemma for_orientations_no_error:
  "step \<noteq> 0 \<Longrightarrow> \<exists>st'. for_orientations sheet step os st = Inr st'"
proof (induction os arbitrary: st)
  case Nil
  show ?case by simp
next
  case (Cons orient rest)
  from try_orientation_no_error [OF Cons.prems, of sheet orient st]
  obtain st1 where "try_orientation sheet step orient st = Inr st1" by blast
  with Cons.IH [OF Cons.prems, of st1] show ?case by simp
qed

lemma find_position_no_error:
  "step_size sheet panel \<noteq> 0 \<Longrightarrow> \<exists>found. find_position sheet panel = Inr found"
  unfolding find_position_def by (rule for_orientations_no_error)

lemma for_orientations_keeps:
  "\<exists>x y r. for_orientations sheet step os (Some (bx, by, br)) = Inr (Some (x, y, r))"
proof (induction os arbitrary: bx "by" br)
  case Nil
  show ?case by simp
next
  case (Cons orient rest)
  obtain x1 y1 r1 where
    "try_orientation sheet step orient (Some (bx, by, br)) = Inr (Some (x1, y1, r1))"
    using try_orientation_keeps by blast
  with Cons.IH [of x1 y1 r1] show ?case by simp
qed

lemma for_orientations_all_skipped:
  "\<forall>(w, h, rot) \<in> set os. w > sheet_width sheet \<or> h > sheet_height sheet \<Longrightarrow>
   for_orientations sheet step os st = Inr st"
  by (induction os arbitrary: st) (auto simp: try_orientation_skip)

lemma find_position_no_fit:
  assumes "\<not> fits_stock (sheet_width sheet) (sheet_height sheet) panel"
  shows "find_position sheet panel = Inr None"
  unfolding find_position_def
  using assms
  by (intro for_orientations_all_skipped) (auto simp: orientations_set_eq fits_stock_def)

lemma try_orientation_empty:
  assumes "used_space sheet = []" and "w \<le> sheet_width sheet" and "h \<le> sheet_height sheet"
  shows "\<exists>x y r. try_orientation sheet step (w, h, rot) st = Inr (Some (x, y, r))"
proof -
  have pp: "priority_positions sheet w h = (0, 0) # tl (priority_positions sheet w h)"
    using assms by (simp add: priority_positions_def)
  have "\<exists>x y r. update_best sheet w h rot (0, 0) st = Some (x, y, r)"
    using assms(1) by (cases st) (auto simp: update_best_def valid_def)
  then obtain x1 y1 r1 where "update_best sheet w h rot (0, 0) st = Some (x1, y1, r1)"
    by blast
  moreover obtain x y r where
    "fold (update_best sheet w h rot) (tl (priority_positions sheet w h)) (Some (x1, y1, r1)) =
       Some (x, y, r)"
    using fold_update_best_keeps by blast
  ultimately have
    "fold (update_best sheet w h rot) (priority_positions sheet w h) st = Some (x, y, r)"
    by (subst pp) simp
  with assms show ?thesis by (simp add: try_orientation_def Let_def)
qed

lemma for_orientations_empty:
  assumes "used_space sheet = []"
    and "\<exists>(w, h, rot) \<in> set os. w \<le> sheet_width sheet \<and> h \<le> sheet_height sheet"
  shows "\<exists>x y r. for_orientations sheet step os st = Inr (Some (x, y, r))"
  using assms(2)
proof (induction os arbitrary: st)
  case Nil
  then show ?case by simp
next
  case (Cons orient rest)
  obtain w h rot where orient: "orient = (w, h, rot)" by (cases orient)
  show ?case
  proof (cases "w \<le> sheet_width sheet \<and> h \<le> sheet_height sheet")
    case True
    with try_orientation_empty [OF assms(1), of w h step rot st]
    obtain x1 y1 r1 where "try_orientation sheet step orient st = Inr (Some (x1, y1, r1))"
      by (auto simp: orient)
    with for_orientations_keeps [of sheet step rest x1 y1 r1] show ?thesis by simp
  next
    case False
    then have "try_orientation sheet step orient st = Inr st"
      by (auto simp: orient try_orientation_def)
    moreover from False Cons.prems orient
    have "\<exists>(w, h, rot) \<in> set rest. w \<le> sheet_width sheet \<and> h \<le> sheet_height sheet" by auto
    ultimately show ?thesis using Cons.IH [of st] by simp
  qed
qed

lemma find_position_empty_sheet:
  assumes "fits_stock W H panel"
  shows "\<exists>x y r. find_position (new_StockSheet W H) panel = Inr (Some (x, y, r))"
  unfolding find_position_def
proof (rule for_orientations_empty)
  show "used_space (new_StockSheet W H) = []" by (simp add: new_StockSheet_def)
  show "\<exists>(w, h, rot) \<in> set (orientations (new_StockSheet W H) panel).
          w \<le> sheet_width (new_StockSheet W H) \<and> h \<le> sheet_height (new_StockSheet W H)"
    using assms
    by (cases "width panel = height panel")
      (auto simp: orientations_set_eq fits_stock_def new_StockSheet_def)
qed

subsection \<open>The result is the best of the candidates searched\<close>

lemma is_best_None [simp]: "is_best cands None \<longleftrightarrow> cands = []"
  by (simp add: is_best_def)

lemma is_best_Some_nonempty: "is_best cands (Some c) \<Longrightarrow> cands \<noteq> []"
  by (cases c) (auto simp: is_best_def)

lemma update_best_is_best:
  assumes "is_best found st"
  shows "is_best (found @ (if valid sheet w h (x, y) then [(x, y, rot)] else []))
           (update_best sheet w h rot (x, y) st)"
proof (cases "valid sheet w h (x, y)")
  case False
  with assms show ?thesis by (simp add: update_best_def)
next
  case True
  show ?thesis
  proof (cases st)
    case None
    with assms True show ?thesis by (simp add: update_best_def is_best_def)
  next
    case (Some c)
    obtain bx "by" br where c: "c = (bx, by, br)" by (cases c)
    from assms Some c have mem: "(bx, by, br) \<in> set found"
      and low: "\<forall>(x', y', rot') \<in> set found. by < y' \<or> (by = y' \<and> bx \<le> x')"
      by (auto simp: is_best_def list_all_iff)
    show ?thesis
    proof (cases "y < by \<or> (y = by \<and> x < bx)")
      case better: True
      have "\<forall>(x', y', rot') \<in> set found. y < y' \<or> (y = y' \<and> x \<le> x')"
        using low better by fastforce
      with True Some c better show ?thesis
        by (auto simp: update_best_def is_best_def list_all_iff)
    next
      case worse: False
      with True Some c mem low show ?thesis
        by (auto simp: update_best_def is_best_def list_all_iff)
    qed
  qed
qed

lemma fold_update_best_is_best:
  "is_best found st \<Longrightarrow>
   is_best (found @ map (\<lambda>(x, y). (x, y, rot)) (filter (valid sheet w h) ps))
     (fold (update_best sheet w h rot) ps st)"
proof (induction ps arbitrary: found st)
  case Nil
  then show ?case by simp
next
  case (Cons p ps)
  obtain x y where p: "p = (x, y)" by (cases p)
  from update_best_is_best [OF Cons.prems, of sheet w h x y rot]
  have "is_best
      ((found @ (if valid sheet w h (x, y) then [(x, y, rot)] else [])) @
        map (\<lambda>(x, y). (x, y, rot)) (filter (valid sheet w h) ps))
      (fold (update_best sheet w h rot) ps (update_best sheet w h rot (x, y) st))"
    by (rule Cons.IH)
  then show ?case by (cases "valid sheet w h (x, y)") (simp_all add: p)
qed

lemma try_orientation_is_best:
  assumes "step \<noteq> 0" and "is_best found st"
    and "\<not> (w > sheet_width sheet \<or> h > sheet_height sheet)"
  shows "\<exists>st'. try_orientation sheet step (w, h, rot) st = Inr st' \<and>
     is_best
       (let found1 = found @ map (\<lambda>(x, y). (x, y, rot))
                               (filter (valid sheet w h) (priority_positions sheet w h))
        in if found1 = []
           then map (\<lambda>(x, y). (x, y, rot))
                  (filter (valid sheet w h) (grid_positions sheet w h step))
           else found1) st'"
proof -
  let ?found1 = "found @ map (\<lambda>(x, y). (x, y, rot))
      (filter (valid sheet w h) (priority_positions sheet w h))"
  let ?st1 = "fold (update_best sheet w h rot) (priority_positions sheet w h) st"
  have st1: "is_best ?found1 ?st1"
    using assms(2) by (rule fold_update_best_is_best)
  show ?thesis
  proof (cases ?st1)
    case None
    with st1 have empty: "?found1 = []" by simp
    have "is_best ([] @ map (\<lambda>(x, y). (x, y, rot))
        (filter (valid sheet w h) (grid_positions sheet w h step)))
        (fold (update_best sheet w h rot) (grid_positions sheet w h step) None)"
      by (rule fold_update_best_is_best) simp
    with None empty assms(1,3) show ?thesis
      by (simp add: try_orientation_def Let_def)
  next
    case (Some c)
    with st1 have ne: "?found1 \<noteq> []" using is_best_Some_nonempty by metis
    have "try_orientation sheet step (w, h, rot) st = Inr ?st1"
      using Some assms(3) by (simp add: try_orientation_def Let_def)
    moreover have "(let found1 = ?found1 in if found1 = []
           then map (\<lambda>(x, y). (x, y, rot))
                  (filter (valid sheet w h) (grid_positions sheet w h step))
           else found1) = ?found1"
      using ne by (simp only: Let_def if_False)
    ultimately show ?thesis using st1 by (simp only: exI [of _ ?st1] simp_thms)
  qed
qed

lemma for_orientations_is_best:
  assumes "step \<noteq> 0"
  shows "is_best found st \<Longrightarrow>
    \<exists>st'. for_orientations sheet step os st = Inr st' \<and>
      is_best (searched_candidates sheet step os found) st'"
proof (induction os arbitrary: found st)
  case Nil
  then show ?case by simp
next
  case (Cons orient rest)
  obtain w h rot where orient: "orient = (w, h, rot)" by (cases orient)
  show ?case
  proof (cases "w > sheet_width sheet \<or> h > sheet_height sheet")
    case True
    then have "try_orientation sheet step orient st = Inr st"
      by (simp add: orient try_orientation_def)
    with True Cons.IH [OF Cons.prems] show ?thesis by (simp add: orient)
  next
    case False
    from try_orientation_is_best [OF assms Cons.prems False, of rot]
    obtain st1 where st1: "try_orientation sheet step (w, h, rot) st = Inr st1"
      and best1: "is_best
       (let found1 = found @ map (\<lambda>(x, y). (x, y, rot))
                               (filter (valid sheet w h) (priority_positions sheet w h))
        in if found1 = []
           then map (\<lambda>(x, y). (x, y, rot))
                  (filter (valid sheet w h) (grid_positions sheet w h step))
           else found1) st1"
      by blast
    from Cons.IH [OF best1] st1 False show ?thesis
      by (simp add: orient Let_def)
  qed
qed

lemma both_phases_fail_triple:
  "both_phases_fail sheet step (w, h, rot) \<longleftrightarrow>
     w > sheet_width sheet \<or> h > sheet_height sheet \<or>
     (filter (valid sheet w h) (priority_positions sheet w h) = [] \<and>
      filter (valid sheet w h) (grid_positions sheet w h step) = [])"
  by (simp add: both_phases_fail_def)

lemma searched_candidates_empty:
  "searched_candidates sheet step os found = [] \<longleftrightarrow>
     found = [] \<and> list_all (both_phases_fail sheet step) os"
proof (induction os arbitrary: found)
  case Nil
  show ?case by simp
next
  case (Cons orient rest)
  obtain w h rot where orient: "orient = (w, h, rot)" by (cases orient)
  show ?case
  proof (cases "w > sheet_width sheet \<or> h > sheet_height sheet")
    case True
    with Cons.IH [of found] show ?thesis
      by (auto simp: orient both_phases_fail_triple)
  next
    case False
    let ?prio = "filter (valid sheet w h) (priority_positions sheet w h)"
    let ?grid = "filter (valid sheet w h) (grid_positions sheet w h step)"
    show ?thesis
    proof (cases "found = [] \<and> ?prio = []")
      case True
      with False Cons.IH [of "map (\<lambda>(x, y). (x, y, rot)) ?grid"] show ?thesis
        by (simp add: orient both_phases_fail_triple Let_def)
    next
      case nonempty: False
      then have ne: "found @ map (\<lambda>(x, y). (x, y, rot)) ?prio \<noteq> []" by simp
      have "searched_candidates sheet step (orient # rest) found =
          searched_candidates sheet step rest (found @ map (\<lambda>(x, y). (x, y, rot)) ?prio)"
        using False ne by (auto simp: orient Let_def)
      moreover have "searched_candidates sheet step rest
          (found @ map (\<lambda>(x, y). (x, y, rot)) ?prio) \<noteq> []"
        using Cons.IH [of "found @ map (\<lambda>(x, y). (x, y, rot)) ?prio"] ne by blast
      moreover have "\<not> (found = [] \<and> both_phases_fail sheet step orient)"
        using False nonempty by (auto simp: orient both_phases_fail_triple)
      ultimately show ?thesis by auto
    qed
  qed
qed

lemma find_position_best_of_searched:
  assumes "step_size sheet panel \<noteq> 0"
  shows "(\<exists>r. find_position sheet panel = Inr r \<and>
            is_best (searched_candidates sheet (step_size sheet panel)
                       (orientations sheet panel) []) r) \<and>
         (find_position sheet panel = Inr None \<longleftrightarrow>
            list_all (both_phases_fail sheet (step_size sheet panel)) (orientations sheet panel))"
proof -
  from for_orientations_is_best [OF assms, of "[]" None sheet "orientations sheet panel"]
  obtain r where r: "find_position sheet panel = Inr r"
    "is_best (searched_candidates sheet (step_size sheet panel) (orientations sheet panel) []) r"
    by (auto simp: find_position_def)
  have "r = None \<longleftrightarrow>
      list_all (both_phases_fail sheet (step_size sheet panel)) (orientations sheet panel)"
  proof (cases r)
    case None
    with r(2) show ?thesis by (simp add: searched_candidates_empty)
  next
    case (Some c)
    with r(2) is_best_Some_nonempty
    have "searched_candidates sheet (step_size sheet panel) (orientations sheet panel) [] \<noteq> []"
      by blast
    with Some show ?thesis by (simp add: searched_candidates_empty)
  qed
  with r show ?thesis by auto
qed

lemma searched_candidates_mono:
  "set found \<subseteq> set (searched_candidates sheet step os found)"
proof (induction os arbitrary: found)
  case Nil
  show ?case by simp
next
  case (Cons orient rest)
  obtain w h rot where orient: "orient = (w, h, rot)" by (cases orient)
  show ?case
  proof (cases "w > sheet_width sheet \<or> h > sheet_height sheet")
    case True
    with Cons.IH [of found] show ?thesis by (simp add: orient)
  next
    case False
    let ?found1 = "found @ map (\<lambda>(x, y). (x, y, rot))
        (filter (valid sheet w h) (priority_positions sheet w h))"
    let ?found2 = "if ?found1 = []
        then map (\<lambda>(x, y). (x, y, rot)) (filter (valid sheet w h) (grid_positions sheet w h step))
        else ?found1"
    have "set found \<subseteq> set ?found2" by auto
    also have "\<dots> \<subseteq> set (searched_candidates sheet step rest ?found2)" by (rule Cons.IH)
    finally show ?thesis using False by (simp add: orient Let_def)
  qed
qed

lemma searched_candidates_from_grid:
  assumes "(x, y, rot) \<in> set (searched_candidates sheet step os found)"
    and "(x, y, rot) \<notin> set found"
    and "\<forall>w h. (w, h, rot) \<in> set os \<longrightarrow>
           filter (valid sheet w h) (priority_positions sheet w h) = []"
  shows "\<exists>w h. (w, h, rot) \<in> set os \<and>
           (x, y) \<in> set (filter (valid sheet w h) (grid_positions sheet w h step)) \<and>
           (\<forall>p \<in> set (filter (valid sheet w h) (grid_positions sheet w h step)).
              (fst p, snd p, rot) \<in> set (searched_candidates sheet step os found))"
  using assms
proof (induction os arbitrary: found)
  case Nil
  then show ?case by simp
next
  case (Cons orient rest)
  obtain w h r where orient: "orient = (w, h, r)" by (cases orient)
  show ?case
  proof (cases "w > sheet_width sheet \<or> h > sheet_height sheet")
    case True
    with Cons.prems have "(x, y, rot) \<in> set (searched_candidates sheet step rest found)"
      by (simp add: orient)
    from Cons.IH [OF this Cons.prems(2)] Cons.prems(3) True show ?thesis
      by (auto simp: orient)
  next
    case False
    define prio where "prio = filter (valid sheet w h) (priority_positions sheet w h)"
    define grid where "grid = filter (valid sheet w h) (grid_positions sheet w h step)"
    define found2 where "found2 =
        (if found @ map (\<lambda>(x, y). (x, y, r)) prio = []
         then map (\<lambda>(x, y). (x, y, r)) grid
         else found @ map (\<lambda>(x, y). (x, y, r)) prio)"
    have unfold: "searched_candidates sheet step (orient # rest) found =
        searched_candidates sheet step rest found2"
      using False by (simp add: orient Let_def found2_def prio_def grid_def)
    have mono: "set found2 \<subseteq> set (searched_candidates sheet step rest found2)"
      by (rule searched_candidates_mono)
    show ?thesis
    proof (cases "(x, y, rot) \<in> set found2")
      case True
      with Cons.prems(2) have in_new: "(x, y, rot) \<in> set (map (\<lambda>(x, y). (x, y, r)) prio) \<or>
          (found = [] \<and> prio = [] \<and> (x, y, rot) \<in> set (map (\<lambda>(x, y). (x, y, r)) grid))"
        by (auto simp: found2_def split: if_splits)
      then have rot: "rot = r" by auto
      with Cons.prems(3) have "prio = []" by (simp add: orient prio_def)
      with in_new rot have empty: "found = []" and mem: "(x, y) \<in> set grid" by auto
      have "found2 = map (\<lambda>(x, y). (x, y, r)) grid"
        using empty \<open>prio = []\<close> by (simp add: found2_def)
      then have "\<forall>p \<in> set grid. (fst p, snd p, rot) \<in> set found2"
        using rot by (auto simp: case_prod_unfold)
      with mono have "\<forall>p \<in> set grid.
          (fst p, snd p, rot) \<in> set (searched_candidates sheet step rest found2)"
        by blast
      then have "\<forall>p \<in> set grid.
          (fst p, snd p, rot) \<in> set (searched_candidates sheet step (orient # rest) found)"
        by (simp only: unfold)
      with mem rot show ?thesis
        unfolding grid_def by (intro exI [of _ w] exI [of _ h]) (simp add: orient)
    next
      case notin: False
      from Cons.prems(1) have "(x, y, rot) \<in> set (searched_candidates sheet step rest found2)"
        by (simp only: unfold)
      from Cons.IH [OF this notin] Cons.prems(3) obtain w' h' where
        "(w', h', rot) \<in> set rest"
        "(x, y) \<in> set (filter (valid sheet w' h') (grid_positions sheet w' h' step))"
        "\<forall>p \<in> set (filter (valid sheet w' h') (grid_positions sheet w' h' step)).
            (fst p, snd p, rot) \<in> set (searched_candidates sheet step rest found2)"
        by auto
      then show ?thesis
        by (intro exI [of _ w'] exI [of _ h']) (simp only: unfold, simp)
    qed
  qed
qed

section \<open>The loop over the sheets\<close>

lemma try_sheets_Some:
  assumes "try_sheets sheets panel = Inr (Some (sheets', panel'))"
  shows "\<exists>i pos. i < length sheets \<and> find_position (sheets ! i) panel = Inr (Some pos) \<and>
           (\<forall>j<i. find_position (sheets ! j) panel = Inr None) \<and>
           sheets' = sheets[i := fst (place (sheets ! i) panel pos)] \<and>
           panel' = snd (place (sheets ! i) panel pos)"
  using assms
proof (induction sheets arbitrary: sheets')
  case Nil
  then show ?case by simp
next
  case (Cons sheet sheets)
  show ?case
  proof (cases "find_position sheet panel")
    case (Inl e)
    with Cons.prems show ?thesis by simp
  next
    case (Inr found)
    show ?thesis
    proof (cases found)
      case None
      with Inr Cons.prems obtain rest' where
        rest': "try_sheets sheets panel = Inr (Some (rest', panel'))" and
        sheets': "sheets' = sheet # rest'"
        by (auto split: sum.splits option.splits)
      from Cons.IH [OF rest'] obtain i pos where
        i: "i < length sheets" "find_position (sheets ! i) panel = Inr (Some pos)"
          "\<forall>j<i. find_position (sheets ! j) panel = Inr None"
          "rest' = sheets[i := fst (place (sheets ! i) panel pos)]"
          "panel' = snd (place (sheets ! i) panel pos)"
        by blast
      have "\<forall>j<Suc i. find_position ((sheet # sheets) ! j) panel = Inr None"
        using i(3) Inr None by (auto simp: less_Suc_eq_0_disj)
      with i sheets' show ?thesis
        by (intro exI [of _ "Suc i"] exI [of _ pos]) simp
    next
      case (Some pos)
      with Inr Cons.prems have "sheets' = fst (place sheet panel pos) # sheets"
        and "panel' = snd (place sheet panel pos)"
        by (auto split: prod.splits)
      with Inr Some show ?thesis
        by (intro exI [of _ 0] exI [of _ pos]) simp
    qed
  qed
qed

lemma try_sheets_first_fit:
  assumes "i < length sheets" and "find_position (sheets ! i) panel = Inr (Some pos)"
    and "\<forall>j<i. find_position (sheets ! j) panel = Inr None"
  shows "try_sheets sheets panel =
    Inr (Some (sheets[i := fst (place (sheets ! i) panel pos)], snd (place (sheets ! i) panel pos)))"
  using assms
proof (induction sheets arbitrary: i)
  case Nil
  then show ?case by simp
next
  case (Cons sheet sheets)
  show ?case
  proof (cases i)
    case 0
    with Cons.prems show ?thesis by (simp split: prod.splits)
  next
    case (Suc k)
    with Cons.prems have "find_position sheet panel = Inr None" by auto
    moreover from Suc Cons.prems have
      "try_sheets sheets panel =
         Inr (Some (sheets[k := fst (place (sheets ! k) panel pos)], snd (place (sheets ! k) panel pos)))"
      by (intro Cons.IH) auto
    ultimately show ?thesis using Suc by simp
  qed
qed

lemma try_sheets_all_reject:
  "\<forall>j<length sheets. find_position (sheets ! j) panel = Inr None \<Longrightarrow>
   try_sheets sheets panel = Inr None"
proof (induction sheets)
  case Nil
  show ?case by simp
next
  case (Cons sheet sheets)
  from Cons.prems have "find_position sheet panel = Inr None" by auto
  moreover from Cons.prems have "\<forall>j<length sheets. find_position (sheets ! j) panel = Inr None"
    by auto
  ultimately show ?case using Cons.IH by simp
qed

lemma try_sheets_None:
  "try_sheets sheets panel = Inr None \<Longrightarrow>
   \<forall>j<length sheets. find_position (sheets ! j) panel = Inr None"
proof (induction sheets)
  case Nil
  show ?case by simp
next
  case (Cons sheet sheets)
  from Cons.prems have "find_position sheet panel = Inr None \<and> try_sheets sheets panel = Inr None"
    by (auto split: sum.splits option.splits prod.splits)
  with Cons.IH show ?case by (auto simp: less_Suc_eq_0_disj)
qed

lemma try_sheets_no_error:
  "\<forall>s \<in> set sheets. step_size s panel \<noteq> 0 \<Longrightarrow> \<exists>r. try_sheets sheets panel = Inr r"
proof (induction sheets)
  case Nil
  show ?case by simp
next
  case (Cons sheet sheets)
  then obtain found where "find_position sheet panel = Inr found"
    using find_position_no_error [of sheet panel] by auto
  moreover from Cons obtain r where "try_sheets sheets panel = Inr r" by auto
  ultimately show ?case by (auto split: option.splits prod.splits)
qed

lemma place_panel_Inr:
  assumes "place_panel W H sheets panel = Inr (sheets', panel')"
  shows "\<exists>s pos. find_position s panel = Inr (Some pos) \<and> panel' = snd (place s panel pos) \<and>
     ((\<exists>i<length sheets. s = sheets ! i \<and> sheets' = sheets[i := fst (place s panel pos)]) \<or>
      (s = new_StockSheet W H \<and> sheets' = sheets @ [fst (place s panel pos)]))"
proof (cases "try_sheets sheets panel")
  case (Inl e)
  with assms show ?thesis by (simp add: place_panel_def)
next
  case (Inr tried)
  show ?thesis
  proof (cases tried)
    case (Some r)
    with Inr assms have "try_sheets sheets panel = Inr (Some (sheets', panel'))"
      by (simp add: place_panel_def)
    from try_sheets_Some [OF this] show ?thesis by blast
  next
    case None
    with Inr assms obtain pos where
      "find_position (new_StockSheet W H) panel = Inr (Some pos)"
      "sheets' = sheets @ [fst (place (new_StockSheet W H) panel pos)]"
      "panel' = snd (place (new_StockSheet W H) panel pos)"
      by (auto simp: place_panel_def split: sum.splits option.splits prod.splits)
    then show ?thesis by blast
  qed
qed

section \<open>Invariants of the allocation\<close>

lemma no_overlap_snoc:
  "no_overlap (rs @ [r]) \<longleftrightarrow>
     no_overlap rs \<and> list_all (apart (rect_x r) (rect_y r) (rect_w r) (rect_h r)) rs"
  by (induction rs) auto

lemma place_no_overlap:
  assumes "find_position sheet panel = Inr (Some pos)" and "no_overlap (used_space sheet)"
  shows "no_overlap (used_space (fst (place sheet panel pos)))"
proof -
  obtain x y rot where pos: "pos = (x, y, rot)" by (cases pos)
  from find_position_valid [OF assms(1) [unfolded pos]] assms(2) show ?thesis
    by (simp add: pos place_def Let_def no_overlap_snoc valid_def oriented_w_def oriented_h_def)
qed

lemma try_sheets_no_overlap:
  assumes "try_sheets sheets panel = Inr (Some (sheets', panel'))"
    and "\<forall>s \<in> set sheets. no_overlap (used_space s)"
  shows "\<forall>s \<in> set sheets'. no_overlap (used_space s)"
  using assms
proof (induction sheets arbitrary: sheets')
  case Nil
  then show ?case by simp
next
  case (Cons sheet sheets)
  show ?case
  proof (cases "find_position sheet panel")
    case (Inl e)
    with Cons.prems show ?thesis by simp
  next
    case (Inr found)
    show ?thesis
    proof (cases found)
      case None
      with Inr Cons.prems obtain rest' where "try_sheets sheets panel = Inr (Some (rest', panel'))"
        and "sheets' = sheet # rest'"
        by (auto split: sum.splits option.splits)
      with Cons.IH [of rest'] Cons.prems(2) show ?thesis by simp
    next
      case (Some pos)
      with Inr Cons.prems(1) have "sheets' = fst (place sheet panel pos) # sheets"
        by (auto split: prod.splits)
      with place_no_overlap [of sheet panel pos] Inr Some Cons.prems(2) show ?thesis by simp
    qed
  qed
qed

lemma place_panel_no_overlap:
  assumes "place_panel W H sheets panel = Inr (sheets', panel')"
    and "\<forall>s \<in> set sheets. no_overlap (used_space s)"
  shows "\<forall>s \<in> set sheets'. no_overlap (used_space s)"
proof (cases "try_sheets sheets panel")
  case (Inl e)
  with assms(1) show ?thesis by (simp add: place_panel_def)
next
  case (Inr tried)
  show ?thesis
  proof (cases tried)
    case (Some r)
    with Inr assms(1) have "try_sheets sheets panel = Inr (Some (sheets', panel'))"
      by (simp add: place_panel_def)
    then show ?thesis using assms(2) by (rule try_sheets_no_overlap)
  next
    case None
    with Inr assms(1) obtain pos where
      pos: "find_position (new_StockSheet W H) panel = Inr (Some pos)"
      and sheets': "sheets' = sheets @ [fst (place (new_StockSheet W H) panel pos)]"
      by (auto simp: place_panel_def split: sum.splits option.splits prod.splits)
    have "no_overlap (used_space (new_StockSheet W H))" by (simp add: new_StockSheet_def)
    with place_no_overlap [OF pos] sheets' assms(2) show ?thesis by simp
  qed
qed

lemma place_all_no_overlap:
  assumes "place_all W H sheets queue = Inr sheets'"
    and "\<forall>s \<in> set sheets. no_overlap (used_space s)"
  shows "\<forall>s \<in> set sheets'. no_overlap (used_space s)"
  using assms
proof (induction queue arbitrary: sheets)
  case Nil
  then show ?case by simp
next
  case (Cons panel rest)
  from Cons.prems(1) obtain r where r: "place_panel W H sheets panel = Inr r"
    and rest: "place_all W H (fst r) rest = Inr sheets'"
    by (auto split: sum.splits)
  from r Cons.prems(2) have "\<forall>s \<in> set (fst r). no_overlap (used_space s)"
    using place_panel_no_overlap [of W H sheets panel "fst r" "snd r"] by simp
  with Cons.IH rest show ?case by blast
qed

lemma calc_efficiency_used_space:
  "calc_efficiency sheets = Inr sheets' \<Longrightarrow> map used_space sheets' = map used_space sheets"
  by (induction sheets arbitrary: sheets') (auto split: if_splits sum.splits)

lemma optimize_layout_no_overlap:
  assumes "optimize_layout W H panels = Some (Inr sheets)" and "s \<in> set sheets"
  shows "no_overlap (used_space s)"
proof -
  from assms(1) obtain placed where
    placed: "place_all W H [new_StockSheet W H] (panels_copy panels) = Inr placed"
    and eff: "calc_efficiency placed = Inr sheets"
    by (auto simp: optimize_layout_eq split: sum.splits)
  have "\<forall>s \<in> set placed. no_overlap (used_space s)"
    using place_all_no_overlap [OF placed] by (simp add: new_StockSheet_def)
  moreover from assms(2) have "used_space s \<in> set (map used_space placed)"
    using calc_efficiency_used_space [OF eff] by (metis image_eqI set_map)
  ultimately show ?thesis by auto
qed

lemma no_overlap_nth:
  assumes "no_overlap rs" and "i < j" and "j < length rs"
  shows "apart (rect_x (rs ! j)) (rect_y (rs ! j)) (rect_w (rs ! j)) (rect_h (rs ! j)) (rs ! i)"
  using assms
proof (induction rs arbitrary: i j)
  case Nil
  then show ?case by simp
next
  case (Cons r rs)
  from Cons.prems(2) obtain j' where j: "j = Suc j'" by (cases j) auto
  show ?case
  proof (cases i)
    case 0
    with Cons.prems j show ?thesis by (auto simp: list_all_length)
  next
    case (Suc i')
    with Cons.prems j Cons.IH [of i' j'] show ?thesis by simp
  qed
qed

lemma apart_interior:
  "apart (rect_x a) (rect_y a) (rect_w a) (rect_h a) b \<Longrightarrow> interior a \<inter> interior b = {}"
  by (auto simp: apart_def interior_def)

lemma place_dims:
  "sheet_width (fst (place s p pos)) = sheet_width s \<and>
   sheet_height (fst (place s p pos)) = sheet_height s"
  by (cases pos) (simp add: place_def Let_def)

lemma place_used_space:
  "\<exists>r. used_space (fst (place s p pos)) = used_space s @ [r] \<and>
       width (rect_panel r) = width p \<and> height (rect_panel r) = height p"
  by (cases pos) (simp add: place_def Let_def)

lemma placed_instances_Cons:
  "placed_instances (s # ss) =
     mset (map (\<lambda>r. (width (rect_panel r), height (rect_panel r))) (used_space s)) +
     placed_instances ss"
  by (simp add: placed_instances_def)

lemma placed_instances_update:
  assumes "i < length sheets" and "used_space s' = used_space (sheets ! i) @ [r]"
  shows "placed_instances (sheets[i := s']) =
     placed_instances sheets + {#(width (rect_panel r), height (rect_panel r))#}"
  using assms
proof (induction sheets arbitrary: i)
  case Nil
  then show ?case by simp
next
  case (Cons s ss)
  show ?case
  proof (cases i)
    case 0
    with Cons.prems show ?thesis by (simp add: placed_instances_Cons)
  next
    case (Suc k)
    with Cons.prems Cons.IH [of k] show ?thesis by (simp add: placed_instances_Cons)
  qed
qed

lemma placed_instances_snoc:
  "placed_instances (sheets @ [s]) =
     placed_instances sheets +
     mset (map (\<lambda>r. (width (rect_panel r), height (rect_panel r))) (used_space s))"
  by (simp add: placed_instances_def)

lemma place_panel_invariant:
  assumes "place_panel W H sheets panel = Inr (sheets', panel')"
    and "\<forall>s \<in> set sheets. sheet_width s = W \<and> sheet_height s = H"
  shows "(\<forall>s \<in> set sheets'. sheet_width s = W \<and> sheet_height s = H) \<and>
     placed_instances sheets' = placed_instances sheets + {#(width panel, height panel)#}"
proof -
  from place_panel_Inr [OF assms(1)] obtain s pos where
    cases: "(\<exists>i<length sheets. s = sheets ! i \<and> sheets' = sheets[i := fst (place s panel pos)]) \<or>
      (s = new_StockSheet W H \<and> sheets' = sheets @ [fst (place s panel pos)])"
    by blast
  obtain r where r: "used_space (fst (place s panel pos)) = used_space s @ [r]"
    "width (rect_panel r) = width panel" "height (rect_panel r) = height panel"
    using place_used_space by blast
  from cases show ?thesis
  proof
    assume "\<exists>i<length sheets. s = sheets ! i \<and> sheets' = sheets[i := fst (place s panel pos)]"
    then obtain i where i: "i < length sheets" "s = sheets ! i"
      "sheets' = sheets[i := fst (place s panel pos)]" by blast
    have "\<forall>t \<in> set sheets'. sheet_width t = W \<and> sheet_height t = H"
    proof
      fix t assume "t \<in> set sheets'"
      then have "t = fst (place s panel pos) \<or> t \<in> set sheets"
        using i(3) set_update_subset_insert [of sheets i] by auto
      with assms(2) i(1,2) place_dims [of s panel pos]
      show "sheet_width t = W \<and> sheet_height t = H" by auto
    qed
    moreover have "placed_instances sheets' =
        placed_instances sheets + {#(width panel, height panel)#}"
      using placed_instances_update [of i sheets "fst (place s panel pos)" r] i r by simp
    ultimately show ?thesis by blast
  next
    assume new: "s = new_StockSheet W H \<and> sheets' = sheets @ [fst (place s panel pos)]"
    with assms(2) place_dims [of s panel pos]
    have "\<forall>t \<in> set sheets'. sheet_width t = W \<and> sheet_height t = H"
      by (auto simp: new_StockSheet_def)
    moreover from new r have "placed_instances sheets' =
        placed_instances sheets + {#(width panel, height panel)#}"
      by (simp add: placed_instances_snoc new_StockSheet_def)
    ultimately show ?thesis by blast
  qed
qed

lemma place_panel_fits:
  assumes "fits_stock W H panel"
    and "step_size (new_StockSheet W H) panel \<noteq> 0"
    and "\<forall>s \<in> set sheets. sheet_width s = W \<and> sheet_height s = H"
  shows "\<exists>sheets' panel'. place_panel W H sheets panel = Inr (sheets', panel')"
proof -
  have "step_size s panel = step_size (new_StockSheet W H) panel" if "s \<in> set sheets" for s
    using that assms(3) by (intro step_size_dims) (simp_all add: new_StockSheet_def)
  with assms(2) have "\<forall>s \<in> set sheets. step_size s panel \<noteq> 0" by simp
  then obtain tried where tried: "try_sheets sheets panel = Inr tried"
    using try_sheets_no_error by blast
  show ?thesis
  proof (cases tried)
    case (Some r)
    with tried show ?thesis by (cases r) (simp add: place_panel_def)
  next
    case None
    obtain x y rot where "find_position (new_StockSheet W H) panel = Inr (Some (x, y, rot))"
      using find_position_empty_sheet [OF assms(1)] by blast
    with None tried show ?thesis by (simp add: place_panel_def split: prod.splits)
  qed
qed

lemma place_panel_no_fit:
  assumes "\<not> fits_stock W H panel"
    and "\<forall>s \<in> set sheets. sheet_width s = W \<and> sheet_height s = H"
  shows "place_panel W H sheets panel = Inl ValueError_too_large"
proof -
  have "\<forall>j<length sheets. find_position (sheets ! j) panel = Inr None"
    using assms by (auto intro!: find_position_no_fit)
  then have "try_sheets sheets panel = Inr None" by (rule try_sheets_all_reject)
  moreover have "find_position (new_StockSheet W H) panel = Inr None"
    using assms(1) by (intro find_position_no_fit) (simp add: new_StockSheet_def)
  ultimately show ?thesis by (simp add: place_panel_def)
qed

lemma place_all_fits:
  assumes "\<forall>p \<in> set queue. fits_stock W H p \<and> step_size (new_StockSheet W H) p \<noteq> 0"
    and "\<forall>s \<in> set sheets. sheet_width s = W \<and> sheet_height s = H"
  shows "\<exists>sheets'. place_all W H sheets queue = Inr sheets' \<and>
     (\<forall>s \<in> set sheets'. sheet_width s = W \<and> sheet_height s = H) \<and>
     placed_instances sheets' =
       placed_instances sheets + mset (map (\<lambda>p. (width p, height p)) queue)"
  using assms
proof (induction queue arbitrary: sheets)
  case Nil
  then show ?case by simp
next
  case (Cons panel rest)
  from Cons.prems obtain sheets1 panel1 where
    step: "place_panel W H sheets panel = Inr (sheets1, panel1)"
    using place_panel_fits [of W H panel sheets] by auto
  from place_panel_invariant [OF step Cons.prems(2)] have
    inv: "\<forall>s \<in> set sheets1. sheet_width s = W \<and> sheet_height s = H" and
    placed: "placed_instances sheets1 = placed_instances sheets + {#(width panel, height panel)#}"
    by blast+
  from Cons.IH [OF _ inv] Cons.prems(1) obtain sheets' where
    "place_all W H sheets1 rest = Inr sheets'"
    "\<forall>s \<in> set sheets'. sheet_width s = W \<and> sheet_height s = H"
    "placed_instances sheets' =
       placed_instances sheets1 + mset (map (\<lambda>p. (width p, height p)) rest)"
    by auto
  with step placed show ?case by simp
qed

lemma place_all_no_fit:
  assumes "\<forall>p \<in> set queue. step_size (new_StockSheet W H) p \<noteq> 0"
    and "\<exists>p \<in> set queue. \<not> fits_stock W H p"
    and "\<forall>s \<in> set sheets. sheet_width s = W \<and> sheet_height s = H"
  shows "place_all W H sheets queue = Inl ValueError_too_large"
  using assms
proof (induction queue arbitrary: sheets)
  case Nil
  then show ?case by simp
next
  case (Cons panel rest)
  show ?case
  proof (cases "fits_stock W H panel")
    case False
    then show ?thesis using place_panel_no_fit [OF _ Cons.prems(3)] by simp
  next
    case True
    with Cons.prems obtain sheets1 panel1 where
      step: "place_panel W H sheets panel = Inr (sheets1, panel1)"
      using place_panel_fits [of W H panel sheets] by auto
    from place_panel_invariant [OF step Cons.prems(3)] have
      inv: "\<forall>s \<in> set sheets1. sheet_width s = W \<and> sheet_height s = H" by blast
    from True Cons.prems(2) have "\<exists>p \<in> set rest. \<not> fits_stock W H p" by auto
    with Cons.IH [OF _ _ inv] Cons.prems(1) step show ?thesis by simp
  qed
qed

lemma calc_efficiency_ok:
  "\<forall>s \<in> set sheets. \<not> float_product_is_zero (sheet_width s) (sheet_height s) \<Longrightarrow>
   \<exists>sheets'. calc_efficiency sheets = Inr sheets'"
  by (induction sheets) auto

lemma calc_efficiency_underflow:
  assumes "sheets \<noteq> []"
    and "\<forall>s \<in> set sheets. float_product_is_zero (sheet_width s) (sheet_height s)"
  shows "calc_efficiency sheets = Inl ZeroDivisionError"
  using assms by (cases sheets) auto

lemma float_product_not_zero:
  "1 \<le> a * b \<Longrightarrow> \<not> float_product_is_zero a b"
proof -
  assume "1 \<le> a * b"
  moreover have "(1 :: rat) / 2 ^ 1075 < 1" by (simp add: divide_less_eq)
  ultimately show ?thesis by (simp add: float_product_is_zero_def)
qed

lemma calc_efficiency_placed:
  "calc_efficiency sheets = Inr sheets' \<Longrightarrow> placed_instances sheets' = placed_instances sheets"
  using calc_efficiency_used_space [of sheets sheets'] by (simp add: placed_instances_def)

section \<open>The queue\<close>

lemma expand_set:
  "set (expand panels) =
     {new_Panel (width p) (height p) 1 | p. p \<in> set panels \<and> 0 < quantity p}"
  by (auto simp: expand_def)

lemma panels_copy_set: "set (panels_copy panels) = set (expand panels)"
  by (simp add: panels_copy_def)

lemma panels_copy_mset: "mset (panels_copy panels) = mset (expand panels)"
  by (simp add: panels_copy_def)

lemma expand_length: "length (expand panels) = (\<Sum>p\<leftarrow>panels. nat (quantity p))"
  by (induction panels) (simp_all add: expand_def)

lemma expand_Cons:
  "expand (p # ps) = replicate (nat (quantity p)) (new_Panel (width p) (height p) 1) @ expand ps"
  by (simp add: expand_def)

lemma expand_count:
  "length (filter (\<lambda>i. (width i, height i) = d) (expand panels)) =
     (\<Sum>p\<leftarrow>panels. if (width p, height p) = d then nat (quantity p) else 0)"
proof (induction panels)
  case Nil
  show ?case by (simp add: expand_def)
next
  case (Cons p ps)
  then show ?case by (simp add: expand_Cons new_Panel_def)
qed

lemma sort_tuple_le:
  "sort_tuple a \<le> sort_tuple b \<longleftrightarrow>
     max (width a) (height a) > max (width b) (height b) \<or>
     (max (width a) (height a) = max (width b) (height b) \<and>
      (width a * height a > width b * height b \<or>
       (width a * height a = width b * height b \<and>
        min (width a) (height a) \<ge> min (width b) (height b))))"
  by (auto simp: sort_tuple_def)

section \<open>Float products that underflow\<close>

lemma calc_efficiency_error:
  "calc_efficiency sheets = Inl e \<Longrightarrow> e = ZeroDivisionError"
  by (induction sheets) (auto split: if_splits sum.splits)

lemma place_panel_nonempty:
  assumes "place_panel W H sheets panel = Inr (sheets', panel')"
  shows "sheets' \<noteq> []"
proof -
  from place_panel_Inr [OF assms] obtain s pos where
    "(\<exists>i<length sheets. s = sheets ! i \<and> sheets' = sheets[i := fst (place s panel pos)]) \<or>
     (s = new_StockSheet W H \<and> sheets' = sheets @ [fst (place s panel pos)])"
    by blast
  then show ?thesis
  proof
    assume "\<exists>i<length sheets. s = sheets ! i \<and> sheets' = sheets[i := fst (place s panel pos)]"
    then obtain i where "i < length sheets" "length sheets' = length sheets" by auto
    then show ?thesis by auto
  next
    assume "s = new_StockSheet W H \<and> sheets' = sheets @ [fst (place s panel pos)]"
    then show ?thesis by simp
  qed
qed

lemma place_all_nonempty:
  "place_all W H sheets queue = Inr sheets' \<Longrightarrow> sheets \<noteq> [] \<Longrightarrow> sheets' \<noteq> []"
proof (induction queue arbitrary: sheets)
  case Nil
  then show ?case by simp
next
  case (Cons panel rest)
  from Cons.prems(1) obtain r where r: "place_panel W H sheets panel = Inr r"
    and rest: "place_all W H (fst r) rest = Inr sheets'"
    by (auto split: sum.splits)
  from r have "fst r \<noteq> []" using place_panel_nonempty [of W H sheets panel "fst r" "snd r"] by simp
  with Cons.IH rest show ?case by blast
qed

lemma tiny_product: "float_product_is_zero (1 / 2 ^ 600) (1 / 2 ^ 600)"
  by (simp add: float_product_is_zero_def)

lemma tiny_request:
  "\<forall>p \<in> set [new_Panel (1 / 2 ^ 600) (1 / 2 ^ 600) 1].
     fits_stock (1 / 2 ^ 600) (1 / 2 ^ 600) p \<and>
     step_size (new_StockSheet (1 / 2 ^ 600) (1 / 2 ^ 600)) p \<noteq> 0"
  by (simp add: fits_stock_def step_size_def float_product_is_zero_def float_thousandth_def
      new_StockSheet_def new_Panel_def)

lemma optimize_layout_underflow:
  assumes "float_product_is_zero W H"
    and "\<forall>p \<in> set panels. fits_stock W H p \<and> step_size (new_StockSheet W H) p \<noteq> 0"
  shows "optimize_layout W H panels = Some (Inl ZeroDivisionError)"
proof -
  have start: "\<forall>s \<in> set [new_StockSheet W H]. sheet_width s = W \<and> sheet_height s = H"
    by (simp add: new_StockSheet_def)
  have "\<forall>p \<in> set (panels_copy panels).
      fits_stock W H p \<and> step_size (new_StockSheet W H) p \<noteq> 0"
    using assms(2)
    by (auto simp: panels_copy_set expand_set step_size_new_Panel)
      (auto simp: new_Panel_def fits_stock_def)
  from place_all_fits [OF this start] obtain placed where
    placed: "place_all W H [new_StockSheet W H] (panels_copy panels) = Inr placed"
      "\<forall>s \<in> set placed. sheet_width s = W \<and> sheet_height s = H"
    by blast
  from placed(1) have "placed \<noteq> []" by (rule place_all_nonempty) simp
  moreover from placed(2) assms(1)
  have "\<forall>s \<in> set placed. float_product_is_zero (sheet_width s) (sheet_height s)" by simp
  ultimately have "calc_efficiency placed = Inl ZeroDivisionError"
    by (rule calc_efficiency_underflow)
  with placed(1) show ?thesis by (simp add: optimize_layout_eq)
qed

subsection \<open>A step that underflows: stock 2 ^ -1070 x 1, one spec 2 ^ -1070 x 3/4 with quantity 2\<close>

text \<open>
  The first instance takes the corner. For the second no priority position is valid, and
  the step, the float product of \<open>2 ^ -1070\<close> and \<open>0.001\<close>, is \<open>0.0\<close>.
\<close>

lemma thin_step: "step_size thin_sheet (new_Panel (1 / 2 ^ 1070) (3 / 4) 1) = 0"
  by (simp add: step_size_def float_product_is_zero_def float_thousandth_def
      thin_sheet_def new_Panel_def)

lemma thin_first:
  "find_position (new_StockSheet (1 / 2 ^ 1070) 1) (new_Panel (1 / 2 ^ 1070) (3 / 4) 1) =
     Inr (Some (0, 0, False))"
  by (simp add: find_position_def orientations_def new_StockSheet_def new_Panel_def
      try_orientation_def priority_positions_def update_best_def valid_def)

lemma thin_second:
  "find_position thin_sheet (new_Panel (1 / 2 ^ 1070) (3 / 4) 1) = Inl Arange_zero_step"
  unfolding find_position_def thin_step
  by (simp add: orientations_def new_Panel_def
      try_orientation_def priority_positions_def update_best_def valid_def apart_def thin_sheet_def)

lemma thin_queue:
  "panels_copy [new_Panel (1 / 2 ^ 1070) (3 / 4) 2] =
     [new_Panel (1 / 2 ^ 1070) (3 / 4) 1, new_Panel (1 / 2 ^ 1070) (3 / 4) 1]"
  by (simp add: panels_copy_def expand_def new_Panel_def numeral_2_eq_2)

lemma thin_place1:
  "place_panel (1 / 2 ^ 1070) 1 [new_StockSheet (1 / 2 ^ 1070) 1] (new_Panel (1 / 2 ^ 1070) (3 / 4) 1) =
     Inr ([thin_sheet], \<lparr>width = 1 / 2 ^ 1070, height = 3 / 4, quantity = 0,
        position = Some (0, 0), rotated = False\<rparr>)"
  using thin_first
  by (simp add: place_panel_def place_def Let_def new_Panel_def new_StockSheet_def thin_sheet_def)

lemma thin_place2:
  "place_panel (1 / 2 ^ 1070) 1 [thin_sheet] (new_Panel (1 / 2 ^ 1070) (3 / 4) 1) =
     Inl Arange_zero_step"
  using thin_second
  by (simp add: place_panel_def)

lemma thin_run:
  "optimize_layout (1 / 2 ^ 1070) 1 [new_Panel (1 / 2 ^ 1070) (3 / 4) 2] =
     Some (Inl Arange_zero_step)"
  by (simp only: optimize_layout_eq thin_queue place_all.simps thin_place1 thin_place2
      sum.case prod.case fst_conv snd_conv)

section \<open>Runs on concrete requests\<close>

subsection \<open>Stock 100 x 100, one spec 80 x 80 with quantity 2\<close>

lemma scenarioB_first:
  "find_position (new_StockSheet 100 100) (new_Panel 80 80 1) = Inr (Some (0, 0, False))"
  by (simp add: find_position_def orientations_def new_StockSheet_def new_Panel_def
      try_orientation_def priority_positions_def update_best_def valid_def step_size_normal)

lemma scenarioB_grid:
  "list_all (\<lambda>p. \<not> valid sheet_80 80 80 p) (grid_positions sheet_80 80 80 (2/25))"
proof -
  have "\<not> valid sheet_80 80 80 (x, y)" if "(x, y) \<in> set (grid_positions sheet_80 80 80 (2/25))" for x y
    using grid_positions_bounds [OF _ that] by (simp add: valid_def sheet_80_def apart_def)
  then show ?thesis by (auto simp: list_all_iff)
qed

lemma scenarioB_second:
  "find_position sheet_80 (new_Panel 80 80 1) = Inr None"
  using fold_update_best_invalid [OF scenarioB_grid, of False None]
  by (simp add: find_position_def orientations_def new_Panel_def
      try_orientation_def priority_positions_def update_best_def valid_def step_size_normal apart_def sheet_80_def)

lemma scenarioB_queue:
  "panels_copy [new_Panel 80 80 2] = [new_Panel 80 80 1, new_Panel 80 80 1]"
  by (simp add: panels_copy_def expand_def new_Panel_def numeral_2_eq_2)

lemma scenarioB_place1:
  "place_panel 100 100 [new_StockSheet 100 100] (new_Panel 80 80 1) =
     Inr ([sheet_80], \<lparr>width = 80, height = 80, quantity = 0, position = Some (0, 0), rotated = False\<rparr>)"
  using scenarioB_first
  by (simp add: place_panel_def place_def Let_def new_Panel_def new_StockSheet_def sheet_80_def)

lemma scenarioB_place2:
  "place_panel 100 100 [sheet_80] (new_Panel 80 80 1) =
     Inr ([sheet_80, sheet_80], \<lparr>width = 80, height = 80, quantity = 0, position = Some (0, 0), rotated = False\<rparr>)"
  using scenarioB_first scenarioB_second
  by (simp add: place_panel_def place_def Let_def new_Panel_def new_StockSheet_def sheet_80_def)

subsection \<open>Stock 4000 x 3000, panels 4000 x 2 and 3999 x 2999\<close>

lemma arange_2: "arange (3999/1000) (2999/1000) = [0, 2999/1000]"
  by (simp add: arange_def ceiling_rat_numeral numeral_2_eq_2)

lemma overshoot_queue:
  "panels_copy [new_Panel 4000 2 1, new_Panel 3999 2999 1] = [new_Panel 4000 2 1, new_Panel 3999 2999 1]"
  by (simp add: panels_copy_def expand_def new_Panel_def sort_tuple_def)

lemma overshoot_first:
  "find_position (new_StockSheet 4000 3000) (new_Panel 4000 2 1) = Inr (Some (0, 0, False))"
  by (simp add: find_position_def orientations_def orientation_key_def new_StockSheet_def new_Panel_def
      try_orientation_def priority_positions_def update_best_def valid_def step_size_normal)

lemma overshoot_second:
  "find_position strip_sheet (new_Panel 3999 2999 1) = Inr (Some (0, 2999/1000, False))"
  by (simp add: find_position_def orientations_def orientation_key_def strip_sheet_def new_Panel_def
      try_orientation_def priority_positions_def update_best_def valid_def step_size_normal apart_def
      grid_positions_def arange_2)

lemma overshoot_place1:
  "place_panel 4000 3000 [new_StockSheet 4000 3000] (new_Panel 4000 2 1) =
     Inr ([strip_sheet], \<lparr>width = 4000, height = 2, quantity = 0, position = Some (0, 0),
                      rotated = False\<rparr>)"
  using overshoot_first
  by (simp add: place_panel_def place_def Let_def new_Panel_def new_StockSheet_def strip_sheet_def)

lemma overshoot_place2:
  "place_panel 4000 3000 [strip_sheet] (new_Panel 3999 2999 1) =
     Inr ([overshoot_sheet\<lparr>efficiency := 0\<rparr>],
          \<lparr>width = 3999, height = 2999, quantity = 0, position = Some (0, 2999 / 1000),
             rotated = False\<rparr>)"
  using overshoot_second
  by (simp add: place_panel_def place_def Let_def new_Panel_def strip_sheet_def overshoot_sheet_def)

lemma overshoot_run:
  "optimize_layout 4000 3000 [new_Panel 4000 2 1, new_Panel 3999 2999 1] =
     Some (Inr [overshoot_sheet])"
  by (simp add: optimize_layout_eq overshoot_queue overshoot_place1 overshoot_place2)
    (simp add: overshoot_sheet_def used_area_def float_product_not_zero)

lemma strip_priority:
  "filter (valid strip_sheet 3999 2999) (priority_positions strip_sheet 3999 2999) = []"
  by (simp add: priority_positions_def valid_def apart_def strip_sheet_def)

subsection \<open>Stock 100 x 100, one spec 50 x 50 with quantity 2\<close>

lemma touching_queue:
  "panels_copy [new_Panel 50 50 2] = [new_Panel 50 50 1, new_Panel 50 50 1]"
  by (simp add: panels_copy_def expand_def new_Panel_def numeral_2_eq_2)

lemma touching_first:
  "find_position (new_StockSheet 100 100) (new_Panel 50 50 1) = Inr (Some (0, 0, False))"
  by (simp add: find_position_def orientations_def new_StockSheet_def new_Panel_def
      try_orientation_def priority_positions_def update_best_def valid_def step_size_normal)

lemma touching_second:
  "find_position half_sheet (new_Panel 50 50 1) = Inr (Some (50, 0, False))"
  by (simp add: find_position_def orientations_def half_sheet_def new_Panel_def
      try_orientation_def priority_positions_def update_best_def valid_def apart_def
      step_size_normal)

lemma touching_place1:
  "place_panel 100 100 [new_StockSheet 100 100] (new_Panel 50 50 1) =
     Inr ([half_sheet], \<lparr>width = 50, height = 50, quantity = 0, position = Some (0, 0),
                          rotated = False\<rparr>)"
  using touching_first
  by (simp add: place_panel_def place_def Let_def new_Panel_def new_StockSheet_def half_sheet_def)

lemma touching_place2:
  "place_panel 100 100 [half_sheet] (new_Panel 50 50 1) =
     Inr ([touching_sheet\<lparr>efficiency := 0\<rparr>],
          \<lparr>width = 50, height = 50, quantity = 0, position = Some (50, 0), rotated = False\<rparr>)"
  using touching_second
  by (simp add: place_panel_def place_def Let_def new_Panel_def half_sheet_def touching_sheet_def)

lemma touching_run:
  "optimize_layout 100 100 [new_Panel 50 50 2] = Some (Inr [touching_sheet])"
  by (simp add: optimize_layout_eq touching_queue touching_place1 touching_place2)
    (simp add: touching_sheet_def used_area_def float_product_not_zero)

subsection \<open>A panel 2003 x 2000 on a sheet 2003 x 2003 with every priority position blocked\<close>

lemma narrow_step: "step_size narrow_sheet narrow_panel = 2"
  by (simp add: step_size_normal narrow_sheet_def narrow_panel_def new_Panel_def)

lemma narrow_orientations:
  "orientations narrow_sheet narrow_panel = [(2003, 2000, False), (2000, 2003, True)]"
  by (simp add: orientations_def orientation_key_def narrow_sheet_def narrow_panel_def new_Panel_def)

lemma narrow_priority_unrotated:
  "filter (valid narrow_sheet 2003 2000) (priority_positions narrow_sheet 2003 2000) = []"
  by (simp add: priority_positions_def valid_def apart_def narrow_sheet_def)

lemma narrow_priority_rotated:
  "filter (valid narrow_sheet 2000 2003) (priority_positions narrow_sheet 2000 2003) = []"
  by (simp add: priority_positions_def valid_def apart_def narrow_sheet_def)

lemma arange_5_2: "arange 5 2 = [0, 2, 4]"
  by (simp add: arange_def ceiling_rat_numeral eval_nat_numeral)

lemma arange_2_2: "arange 2 2 = [0]"
  by (simp add: arange_def)

lemma narrow_grid_unrotated:
  "grid_positions narrow_sheet 2003 2000 2 = [(0, 0), (0, 2), (0, 4)]"
  by (simp add: grid_positions_def narrow_sheet_def arange_5_2 arange_2_2)

lemma narrow_grid_unrotated_valid:
  "filter (valid narrow_sheet 2003 2000) (grid_positions narrow_sheet 2003 2000 2) = [(0, 2)]"
  by (simp add: narrow_grid_unrotated) (simp add: valid_def apart_def narrow_sheet_def)

lemma narrow_grid_rotated:
  "grid_positions narrow_sheet 2000 2003 2 = [(0, 0), (2, 0), (4, 0)]"
  by (simp add: grid_positions_def narrow_sheet_def arange_5_2 arange_2_2)

lemma narrow_grid_rotated_valid:
  "filter (valid narrow_sheet 2000 2003) (grid_positions narrow_sheet 2000 2003 2) = [(2, 0)]"
  by (simp add: narrow_grid_rotated) (simp add: valid_def apart_def narrow_sheet_def)

lemma narrow_find_position:
  "find_position narrow_sheet narrow_panel = Inr (Some (0, 2, False))"
proof -
  have valid2: "valid narrow_sheet 2003 2000 (0, 2)"
    by (simp add: valid_def apart_def narrow_sheet_def)
  have fits: "(2003 :: rat) \<le> sheet_width narrow_sheet" "(2000 :: rat) \<le> sheet_height narrow_sheet"
    "(2000 :: rat) \<le> sheet_width narrow_sheet" "(2003 :: rat) \<le> sheet_height narrow_sheet"
    by (simp_all add: narrow_sheet_def)
  have one: "try_orientation narrow_sheet 2 (2003, 2000, False) None = Inr (Some (0, 2, False))"
    by (simp add: try_orientation_filtered [OF fits(1,2)] narrow_priority_unrotated
        narrow_grid_unrotated_valid update_best_def valid2)
  have two: "try_orientation narrow_sheet 2 (2000, 2003, True) (Some (0, 2, False)) =
      Inr (Some (0, 2, False))"
    by (simp add: try_orientation_filtered [OF fits(3,4)] narrow_priority_rotated)
  show ?thesis
    by (simp add: find_position_def narrow_step narrow_orientations one two)
qed

lemma narrow_claimed:
  "claimed_candidates narrow_sheet narrow_panel = [(0, 2, False), (2, 0, True)]"
  by (simp add: claimed_candidates_def claimed_candidates_of_def narrow_step narrow_orientations
      narrow_priority_unrotated narrow_priority_rotated narrow_grid_unrotated_valid
      narrow_grid_rotated_valid)
    (simp add: narrow_sheet_def)

section \<open>Containment\<close>

text \<open>
  C1 says that every rectangle placed by \<open>optimize_layout\<close> lies inside its sheet,
  the rectangles found by the fallback grid scan included. The priority phase filters its
  positions to the sheet (lines 61 to 64); the grid scan does not. Its candidates on an
  axis are the multiples of the step below \<open>sheet.height - h + step\<close> (lines 84
  and 85), so the last one lies beyond \<open>sheet.height - h\<close> whenever that bound is
  not a multiple of the step. The run below shows it: on stock 4000 x 3000 with the panels
  4000 x 2 and 3999 x 2999 the second rectangle is placed at \<open>y = 2.999\<close> with
  height 2999, so its upper edge is at 3001.999, above the sheet of height 3000. The
  statement C1 does not hold of the source at this input.
\<close>

theorem grid_scan_places_beyond_sheet:
  "optimize_layout 4000 3000 [new_Panel 4000 2 1, new_Panel 3999 2999 1] =
     Some (Inr [\<lparr>sheet_width = 4000, sheet_height = 3000,
       used_space =
        [\<lparr>rect_x = 0, rect_y = 0, rect_w = 4000, rect_h = 2,
           rect_panel = \<lparr>width = 4000, height = 2, quantity = 0, position = Some (0, 0),
                          rotated = False\<rparr>\<rparr>,
         \<lparr>rect_x = 0, rect_y = 2999 / 1000, rect_w = 3999, rect_h = 2999,
           rect_panel = \<lparr>width = 3999, height = 2999, quantity = 0,
                          position = Some (0, 2999 / 1000), rotated = False\<rparr>\<rparr>],
       efficiency = 12001001 / 120000\<rparr>]) \<and>
   (\<exists>s r. optimize_layout 4000 3000 [new_Panel 4000 2 1, new_Panel 3999 2999 1] = Some (Inr [s]) \<and>
      r \<in> set (used_space s) \<and> sheet_height s < rect_y r + rect_h r)"
proof
  show "optimize_layout 4000 3000 [new_Panel 4000 2 1, new_Panel 3999 2999 1] =
     Some (Inr [\<lparr>sheet_width = 4000, sheet_height = 3000,
       used_space =
        [\<lparr>rect_x = 0, rect_y = 0, rect_w = 4000, rect_h = 2,
           rect_panel = \<lparr>width = 4000, height = 2, quantity = 0, position = Some (0, 0),
                          rotated = False\<rparr>\<rparr>,
         \<lparr>rect_x = 0, rect_y = 2999 / 1000, rect_w = 3999, rect_h = 2999,
           rect_panel = \<lparr>width = 3999, height = 2999, quantity = 0,
                          position = Some (0, 2999 / 1000), rotated = False\<rparr>\<rparr>],
       efficiency = 12001001 / 120000\<rparr>])"
    by (simp only: overshoot_run overshoot_sheet_def)
  have "sheet_height overshoot_sheet <
      rect_y (used_space overshoot_sheet ! 1) + rect_h (used_space overshoot_sheet ! 1)"
    by (simp add: overshoot_sheet_def)
  moreover have "used_space overshoot_sheet ! 1 \<in> set (used_space overshoot_sheet)"
    by (simp add: overshoot_sheet_def)
  ultimately show "\<exists>s r. optimize_layout 4000 3000 [new_Panel 4000 2 1, new_Panel 3999 2999 1] =
        Some (Inr [s]) \<and>
      r \<in> set (used_space s) \<and> sheet_height s < rect_y r + rect_h r"
    using overshoot_run by blast
qed

section \<open>The best candidate\<close>

text \<open>
  C2 says that \<open>find_position\<close> returns the candidate that is least in (y, then x)
  over both orientations, where each orientation on its own falls back to its grid scan
  when its priority phase yields nothing; the comment of line 82 says the same of the
  fallback. The source guards the scan with the one flag \<open>can_place\<close> that both
  orientations share (lines 23 and 83): once the first orientation has a position, the
  grid of the second is never scanned. On \<open>narrow_sheet\<close> no priority position is
  valid in either orientation. The grid of the unrotated orientation yields (0, 2); the
  grid of the rotated orientation holds the valid position (2, 0), which is lower, and is
  skipped. \<open>find_position\<close> returns (0, 2), unrotated, which is not the best of the
  candidates that C2 describes: C2 does not hold of the source at this input.
\<close>

theorem second_orientation_grid_never_scanned:
  "filter (valid narrow_sheet 2003 2000) (priority_positions narrow_sheet 2003 2000) = [] \<and>
   filter (valid narrow_sheet 2000 2003) (priority_positions narrow_sheet 2000 2003) = [] \<and>
   filter (valid narrow_sheet 2000 2003)
     (grid_positions narrow_sheet 2000 2003 (step_size narrow_sheet narrow_panel)) = [(2, 0)] \<and>
   find_position narrow_sheet narrow_panel = Inr (Some (0, 2, False)) \<and>
   (2, 0, True) \<in> set (claimed_candidates narrow_sheet narrow_panel) \<and>
   \<not> is_best (claimed_candidates narrow_sheet narrow_panel) (Some (0, 2, False))"
  by (simp add: narrow_priority_unrotated narrow_priority_rotated narrow_step
      narrow_grid_rotated_valid narrow_find_position narrow_claimed is_best_def)

section \<open>Rejection\<close>

text \<open>
  C3, amended: for positive stock dimensions and specs with positive dimensions and a
  quantity of at least one, none of them so small that the step of line 27 is
  \<open>0.0\<close>, \<open>optimize_layout\<close> raises the error of line 156 if and
  only if some spec fits the empty stock sheet in neither orientation, that is
  \<open>\<not> ((w \<le> W \<and> h \<le> H) \<or> (h \<le> W \<and> w \<le> H))\<close>. The error carries no
  sheets. When every spec fits and the stock area \<open>W * H\<close> does not underflow to
  zero in floating point (it exceeds \<open>2 ^ -1075\<close>), the run returns the list of
  sheets, and the rectangles on it are the instances of the request, each placed once.
\<close>

theorem too_large_iff_no_orientation_fits:
  assumes "0 < W" and "0 < H"
    and "\<forall>p \<in> set panels. 0 < width p \<and> 0 < height p \<and> 1 \<le> quantity p"
    and "\<forall>p \<in> set panels. step_size (new_StockSheet W H) p \<noteq> 0"
  shows "(optimize_layout W H panels = Some (Inl ValueError_too_large) \<longleftrightarrow>
            (\<exists>p \<in> set panels.
               \<not> ((width p \<le> W \<and> height p \<le> H) \<or> (height p \<le> W \<and> width p \<le> H)))) \<and>
         ((\<forall>p \<in> set panels.
               (width p \<le> W \<and> height p \<le> H) \<or> (height p \<le> W \<and> width p \<le> H)) \<and>
          1 / 2 ^ 1075 < W * H \<longrightarrow>
            (\<exists>sheets. optimize_layout W H panels = Some (Inr sheets) \<and>
               mset (map (\<lambda>r. (width (rect_panel r), height (rect_panel r)))
                      (concat (map used_space sheets))) =
                 mset (map (\<lambda>p. (width p, height p)) (expand panels)) \<and>
               length (concat (map used_space sheets)) = (\<Sum>p\<leftarrow>panels. nat (quantity p))))"
proof -
  let ?queue = "panels_copy panels"
  let ?start = "[new_StockSheet W H]"
  have start: "\<forall>s \<in> set ?start. sheet_width s = W \<and> sheet_height s = H"
    by (simp add: new_StockSheet_def)
  have pos: "\<forall>p \<in> set ?queue. step_size (new_StockSheet W H) p \<noteq> 0"
    using assms(4) by (auto simp: panels_copy_set expand_set step_size_new_Panel)
  have fits_iff: "(\<exists>p \<in> set ?queue. \<not> fits_stock W H p) \<longleftrightarrow>
      (\<exists>p \<in> set panels. \<not> fits_stock W H p)"
    using assms(3) by (fastforce simp: panels_copy_set expand_set new_Panel_def fits_stock_def)
  have bad: "optimize_layout W H panels = Some (Inl ValueError_too_large)"
    if "\<exists>p \<in> set panels. \<not> fits_stock W H p"
  proof -
    from that fits_iff have "\<exists>p \<in> set ?queue. \<not> fits_stock W H p" by simp
    from place_all_no_fit [OF pos this start] show ?thesis
      by (simp add: optimize_layout_eq)
  qed
  have run: "\<exists>placed. optimize_layout W H panels = Some (calc_efficiency placed) \<and>
      (\<forall>s \<in> set placed. sheet_width s = W \<and> sheet_height s = H) \<and>
      placed_instances placed = mset (map (\<lambda>p. (width p, height p)) (expand panels))"
    if "\<forall>p \<in> set panels. fits_stock W H p"
  proof -
    from that fits_iff pos
    have "\<forall>p \<in> set ?queue. fits_stock W H p \<and> step_size (new_StockSheet W H) p \<noteq> 0"
      by blast
    from place_all_fits [OF this start] obtain placed where
      placed: "place_all W H ?start ?queue = Inr placed"
        "\<forall>s \<in> set placed. sheet_width s = W \<and> sheet_height s = H"
        "placed_instances placed =
           placed_instances ?start + mset (map (\<lambda>p. (width p, height p)) ?queue)"
      by blast
    have "mset (map (\<lambda>p. (width p, height p)) ?queue) =
        mset (map (\<lambda>p. (width p, height p)) (expand panels))"
      using panels_copy_mset [of panels] by (metis mset_map)
    with placed(3)
    have "placed_instances placed = mset (map (\<lambda>p. (width p, height p)) (expand panels))"
      by (simp add: placed_instances_def new_StockSheet_def)
    with placed(1,2) show ?thesis by (auto simp: optimize_layout_eq)
  qed
  have not_too_large: "optimize_layout W H panels \<noteq> Some (Inl ValueError_too_large)"
    if "\<forall>p \<in> set panels. fits_stock W H p"
  proof -
    from run [OF that] obtain placed where
      "optimize_layout W H panels = Some (calc_efficiency placed)" by blast
    then show ?thesis using calc_efficiency_error [of placed ValueError_too_large] by auto
  qed
  have good: "\<exists>sheets. optimize_layout W H panels = Some (Inr sheets) \<and>
      placed_instances sheets = mset (map (\<lambda>p. (width p, height p)) (expand panels))"
    if "\<forall>p \<in> set panels. fits_stock W H p" and "1 / 2 ^ 1075 < W * H"
  proof -
    from run [OF that(1)] obtain placed where
      placed: "optimize_layout W H panels = Some (calc_efficiency placed)"
        "\<forall>s \<in> set placed. sheet_width s = W \<and> sheet_height s = H"
        "placed_instances placed = mset (map (\<lambda>p. (width p, height p)) (expand panels))"
      by blast
    from that(2) have "\<not> float_product_is_zero W H"
      by (simp add: float_product_is_zero_def)
    with placed(2)
    have "\<forall>s \<in> set placed. \<not> float_product_is_zero (sheet_width s) (sheet_height s)" by simp
    then obtain sheets where sheets: "calc_efficiency placed = Inr sheets"
      using calc_efficiency_ok by blast
    with placed(1,3) calc_efficiency_placed [OF sheets] show ?thesis by simp
  qed
  have count: "length (concat (map used_space sheets)) = (\<Sum>p\<leftarrow>panels. nat (quantity p))"
    if "placed_instances sheets = mset (map (\<lambda>p. (width p, height p)) (expand panels))"
    for sheets
  proof -
    from that have "size (placed_instances sheets) =
        size (mset (map (\<lambda>p. (width p, height p)) (expand panels)))" by simp
    then show ?thesis by (simp add: placed_instances_def expand_length)
  qed
  show ?thesis
  proof (intro conjI impI)
    show "optimize_layout W H panels = Some (Inl ValueError_too_large) \<longleftrightarrow>
        (\<exists>p \<in> set panels.
           \<not> ((width p \<le> W \<and> height p \<le> H) \<or> (height p \<le> W \<and> width p \<le> H)))"
      using bad not_too_large unfolding fits_stock_def by blast
  next
    assume a: "(\<forall>p \<in> set panels.
        (width p \<le> W \<and> height p \<le> H) \<or> (height p \<le> W \<and> width p \<le> H)) \<and>
      1 / 2 ^ 1075 < W * H"
    then have "\<forall>p \<in> set panels. fits_stock W H p" by (simp add: fits_stock_def)
    from good [OF this] a obtain sheets where
      "optimize_layout W H panels = Some (Inr sheets)"
      "placed_instances sheets = mset (map (\<lambda>p. (width p, height p)) (expand panels))"
      by blast
    with count [of sheets] show "\<exists>sheets. optimize_layout W H panels = Some (Inr sheets) \<and>
        mset (map (\<lambda>r. (width (rect_panel r), height (rect_panel r)))
               (concat (map used_space sheets))) =
          mset (map (\<lambda>p. (width p, height p)) (expand panels)) \<and>
        length (concat (map used_space sheets)) = (\<Sum>p\<leftarrow>panels. nat (quantity p))"
      unfolding placed_instances_def by blast
  qed
qed

theorem too_large_iff_no_orientation_fits_witness:
  "optimize_layout 10 10 [new_Panel 20 20 1] = Some (Inl ValueError_too_large) \<and>
   optimize_layout 100 100 [new_Panel 50 50 2] \<noteq> Some (Inl ValueError_too_large) \<and>
   (\<exists>sheets. optimize_layout 100 100 [new_Panel 50 50 2] = Some (Inr sheets) \<and>
      length (concat (map used_space sheets)) = 2)"
  using too_large_iff_no_orientation_fits [of 10 10 "[new_Panel 20 20 1]"]
    too_large_iff_no_orientation_fits [of 100 100 "[new_Panel 50 50 2]"]
  by (auto simp: step_size_normal new_StockSheet_def new_Panel_def)

text \<open>
  C3 as stated promises the list of sheets whenever every spec fits. On stock
  \<open>2 ^ -600\<close> by \<open>2 ^ -600\<close> with one panel of the same size the panel fits and is
  placed, but the float product of the stock dimensions is \<open>0.0\<close> and line 165 raises
  \<open>ZeroDivisionError\<close>: no list of sheets is returned. On stock
  \<open>2 ^ -1070\<close> by 1 with two panels \<open>2 ^ -1070\<close> by 3/4 each panel fits and the
  stock area does not underflow, but the second panel reaches the scan of lines 84, 85
  with a step of \<open>0.0\<close>, on which \<open>np.arange\<close> raises: again no list of sheets
  is returned.
\<close>

theorem float_underflow_counterexample:
  "(0 :: rat) < 1 / 2 ^ 600 \<and>
   width (new_Panel (1 / 2 ^ 600) (1 / 2 ^ 600) 1) \<le> 1 / 2 ^ 600 \<and>
   height (new_Panel (1 / 2 ^ 600) (1 / 2 ^ 600) 1) \<le> 1 / 2 ^ 600 \<and>
   1 \<le> quantity (new_Panel (1 / 2 ^ 600) (1 / 2 ^ 600) 1) \<and>
   optimize_layout (1 / 2 ^ 600) (1 / 2 ^ 600) [new_Panel (1 / 2 ^ 600) (1 / 2 ^ 600) 1] =
     Some (Inl ZeroDivisionError) \<and>
   (0 :: rat) < 1 / 2 ^ 1070 \<and>
   width (new_Panel (1 / 2 ^ 1070) (3 / 4) 2) \<le> 1 / 2 ^ 1070 \<and>
   height (new_Panel (1 / 2 ^ 1070) (3 / 4) 2) \<le> 1 \<and>
   1 \<le> quantity (new_Panel (1 / 2 ^ 1070) (3 / 4) 2) \<and>
   \<not> float_product_is_zero (1 / 2 ^ 1070) 1 \<and>
   optimize_layout (1 / 2 ^ 1070) 1 [new_Panel (1 / 2 ^ 1070) (3 / 4) 2] =
     Some (Inl Arange_zero_step)"
proof -
  have "optimize_layout (1 / 2 ^ 600) (1 / 2 ^ 600) [new_Panel (1 / 2 ^ 600) (1 / 2 ^ 600) 1] =
      Some (Inl ZeroDivisionError)"
    by (rule optimize_layout_underflow [OF tiny_product tiny_request])
  moreover note thin_run
  moreover have "\<not> float_product_is_zero (1 / 2 ^ 1070) 1"
    by (simp add: float_product_is_zero_def)
  ultimately show ?thesis by (simp add: new_Panel_def)
qed

section \<open>No overlap\<close>

text \<open>
  C4: in every output of \<open>optimize_layout\<close>, two rectangles on the same sheet
  satisfy the test of lines 70 and 71: one of them lies at or beyond the other on the x
  axis or on the y axis, where equal coordinates (touching edges) are allowed. Hence
  their interiors are disjoint.
\<close>

theorem placed_rects_do_not_overlap:
  assumes "optimize_layout W H panels = Some (Inr sheets)"
    and "s \<in> set sheets" and "i < j" and "j < length (used_space s)"
  shows "(rect_x (used_space s ! j) + rect_w (used_space s ! j) \<le> rect_x (used_space s ! i) \<or>
          rect_x (used_space s ! j) \<ge> rect_x (used_space s ! i) + rect_w (used_space s ! i) \<or>
          rect_y (used_space s ! j) + rect_h (used_space s ! j) \<le> rect_y (used_space s ! i) \<or>
          rect_y (used_space s ! j) \<ge> rect_y (used_space s ! i) + rect_h (used_space s ! i)) \<and>
         interior (used_space s ! i) \<inter> interior (used_space s ! j) = {}"
proof -
  have "no_overlap (used_space s)"
    using assms(1,2) by (rule optimize_layout_no_overlap)
  then have ap: "apart (rect_x (used_space s ! j)) (rect_y (used_space s ! j))
      (rect_w (used_space s ! j)) (rect_h (used_space s ! j)) (used_space s ! i)"
    using assms(3,4) by (rule no_overlap_nth)
  from apart_interior [OF ap] have "interior (used_space s ! i) \<inter> interior (used_space s ! j) = {}"
    by blast
  with ap show ?thesis by (simp add: apart_def)
qed

theorem placed_rects_do_not_overlap_witness:
  "optimize_layout 100 100 [new_Panel 50 50 2] = Some (Inr [touching_sheet]) \<and>
   touching_sheet \<in> set [touching_sheet] \<and> (0::nat) < 1 \<and>
   1 < length (used_space touching_sheet) \<and>
   rect_x (used_space touching_sheet ! 1) =
     rect_x (used_space touching_sheet ! 0) + rect_w (used_space touching_sheet ! 0) \<and>
   interior (used_space touching_sheet ! 0) \<inter> interior (used_space touching_sheet ! 1) = {}"
proof -
  have len: "1 < length (used_space touching_sheet)" by (simp add: touching_sheet_def)
  have mem: "touching_sheet \<in> set [touching_sheet]" by simp
  have "rect_x (used_space touching_sheet ! 1) =
      rect_x (used_space touching_sheet ! 0) + rect_w (used_space touching_sheet ! 0)"
    by (simp add: touching_sheet_def)
  with placed_rects_do_not_overlap [OF touching_run mem zero_less_one len] touching_run len
  show ?thesis by simp
qed

section \<open>The Normalizer\<close>

text \<open>
  C6: the queue holds, for every spec, quantity many unit instances with the dimensions of
  the spec, and it is sorted in descending order of the key with primary
  \<open>max (width, height)\<close>, secondary \<open>width * height\<close> and tertiary
  \<open>min (width, height)\<close>; instances with equal keys keep the order of the input.
\<close>

theorem normalizer_expands_and_sorts:
  "expand panels =
     concat (map (\<lambda>p. replicate (nat (quantity p))
        \<lparr>width = width p, height = height p, quantity = 1, position = None, rotated = False\<rparr>)
        panels) \<and>
   (\<forall>d. length (filter (\<lambda>i. (width i, height i) = d) (panels_copy panels)) =
        (\<Sum>p\<leftarrow>panels. if (width p, height p) = d then nat (quantity p) else 0)) \<and>
   mset (panels_copy panels) = mset (expand panels) \<and>
   sorted_wrt (\<lambda>a b.
       max (width a) (height a) > max (width b) (height b) \<or>
       (max (width a) (height a) = max (width b) (height b) \<and>
        (width a * height a > width b * height b \<or>
         (width a * height a = width b * height b \<and>
          min (width a) (height a) \<ge> min (width b) (height b)))))
     (panels_copy panels) \<and>
   (\<forall>k. filter (\<lambda>i. (max (width i) (height i), width i * height i, min (width i) (height i)) = k)
          (panels_copy panels) =
        filter (\<lambda>i. (max (width i) (height i), width i * height i, min (width i) (height i)) = k)
          (expand panels))"
proof (intro conjI allI)
  show "expand panels =
     concat (map (\<lambda>p. replicate (nat (quantity p))
        \<lparr>width = width p, height = height p, quantity = 1, position = None, rotated = False\<rparr>)
        panels)"
    by (simp add: expand_def new_Panel_def)
next
  fix d :: "rat \<times> rat"
  have "filter (\<lambda>i. (width i, height i) = d) (panels_copy panels) =
      sort_key sort_tuple (filter (\<lambda>i. (width i, height i) = d) (expand panels))"
    unfolding panels_copy_def by (rule filter_sort)
  then show "length (filter (\<lambda>i. (width i, height i) = d) (panels_copy panels)) =
      (\<Sum>p\<leftarrow>panels. if (width p, height p) = d then nat (quantity p) else 0)"
    by (simp add: expand_count)
next
  show "mset (panels_copy panels) = mset (expand panels)"
    by (simp add: panels_copy_def)
next
  have "sorted (map sort_tuple (panels_copy panels))"
    unfolding panels_copy_def by (rule sorted_sort_key)
  then have "sorted_wrt (\<lambda>a b. sort_tuple a \<le> sort_tuple b) (panels_copy panels)"
    by (simp add: sorted_map)
  then show "sorted_wrt (\<lambda>a b.
       max (width a) (height a) > max (width b) (height b) \<or>
       (max (width a) (height a) = max (width b) (height b) \<and>
        (width a * height a > width b * height b \<or>
         (width a * height a = width b * height b \<and>
          min (width a) (height a) \<ge> min (width b) (height b)))))
     (panels_copy panels)"
    by (simp only: sort_tuple_le)
next
  fix k :: "rat \<times> rat \<times> rat"
  obtain k1 k2 k3 where k: "k = (k1, k2, k3)" by (cases k)
  have eq: "(\<lambda>i. (max (width i) (height i), width i * height i, min (width i) (height i)) = k) =
      (\<lambda>i. sort_tuple i = (- k1, - k2, - k3))"
    by (auto simp: k sort_tuple_def)
  show "filter (\<lambda>i. (max (width i) (height i), width i * height i, min (width i) (height i)) = k)
          (panels_copy panels) =
        filter (\<lambda>i. (max (width i) (height i), width i * height i, min (width i) (height i)) = k)
          (expand panels)"
    unfolding eq panels_copy_def by (rule sort_key_stable)
qed

theorem normalizer_expands_and_sorts_witness:
  "expand [new_Panel 50 40 2, new_Panel 80 80 1] =
     [new_Panel 50 40 1, new_Panel 50 40 1, new_Panel 80 80 1] \<and>
   panels_copy [new_Panel 50 40 2, new_Panel 80 80 1] =
     [new_Panel 80 80 1, new_Panel 50 40 1, new_Panel 50 40 1] \<and>
   mset (panels_copy [new_Panel 50 40 2, new_Panel 80 80 1]) =
     mset (expand [new_Panel 50 40 2, new_Panel 80 80 1])"
  using normalizer_expands_and_sorts [of "[new_Panel 50 40 2, new_Panel 80 80 1]"]
  by (simp add: panels_copy_def expand_def new_Panel_def sort_tuple_def eval_nat_numeral)

section \<open>First fit\<close>

text \<open>
  C7: for an instance at the head of the queue, the allocator takes the first sheet, in
  the order of creation, on which \<open>find_position\<close> succeeds, and places the
  instance there. Only when every existing sheet has rejected the instance is a new empty
  sheet tried and, if it accepts, appended.
\<close>

theorem first_fit_allocation:
  assumes "quantity panel = 1"
  shows "(\<forall>i pos. i < length sheets \<and> find_position (sheets ! i) panel = Inr (Some pos) \<and>
            (\<forall>j<i. find_position (sheets ! j) panel = Inr None) \<longrightarrow>
            allocate (W, H) sheets (panel # rest) =
              allocate (W, H) (sheets[i := fst (place (sheets ! i) panel pos)]) rest) \<and>
         ((\<forall>j<length sheets. find_position (sheets ! j) panel = Inr None) \<longrightarrow>
            allocate (W, H) sheets (panel # rest) =
              (case find_position (new_StockSheet W H) panel of
                 Inl e \<Rightarrow> Some (Inl e)
               | Inr None \<Rightarrow> Some (Inl ValueError_too_large)
               | Inr (Some pos) \<Rightarrow>
                   allocate (W, H) (sheets @ [fst (place (new_StockSheet W H) panel pos)]) rest))"
proof (intro conjI allI impI)
  fix i pos
  assume a: "i < length sheets \<and> find_position (sheets ! i) panel = Inr (Some pos) \<and>
    (\<forall>j<i. find_position (sheets ! j) panel = Inr None)"
  then have "try_sheets sheets panel =
      Inr (Some (sheets[i := fst (place (sheets ! i) panel pos)], snd (place (sheets ! i) panel pos)))"
    by (intro try_sheets_first_fit) auto
  then have "place_panel W H sheets panel =
      Inr (sheets[i := fst (place (sheets ! i) panel pos)], snd (place (sheets ! i) panel pos))"
    by (simp add: place_panel_def)
  with assms place_quantity [of "sheets ! i" panel pos]
  show "allocate (W, H) sheets (panel # rest) =
      allocate (W, H) (sheets[i := fst (place (sheets ! i) panel pos)]) rest"
    by (subst allocate.simps) simp
next
  assume "\<forall>j<length sheets. find_position (sheets ! j) panel = Inr None"
  then have none: "try_sheets sheets panel = Inr None" by (rule try_sheets_all_reject)
  show "allocate (W, H) sheets (panel # rest) =
      (case find_position (new_StockSheet W H) panel of
         Inl e \<Rightarrow> Some (Inl e)
       | Inr None \<Rightarrow> Some (Inl ValueError_too_large)
       | Inr (Some pos) \<Rightarrow>
           allocate (W, H) (sheets @ [fst (place (new_StockSheet W H) panel pos)]) rest)"
  proof (cases "find_position (new_StockSheet W H) panel")
    case (Inl e)
    with none show ?thesis by (subst allocate.simps) (simp add: place_panel_def)
  next
    case (Inr found)
    show ?thesis
    proof (cases found)
      case None
      with Inr none show ?thesis by (subst allocate.simps) (simp add: place_panel_def)
    next
      case (Some pos)
      with Inr none have "place_panel W H sheets panel =
          Inr (sheets @ [fst (place (new_StockSheet W H) panel pos)],
               snd (place (new_StockSheet W H) panel pos))"
        by (simp add: place_panel_def case_prod_unfold)
      with Inr Some assms place_quantity [of "new_StockSheet W H" panel pos]
      show ?thesis by (subst allocate.simps) simp
    qed
  qed
qed

theorem first_fit_allocation_witness:
  "quantity (new_Panel 80 80 1) = 1 \<and>
   find_position ([sheet_80, new_StockSheet 100 100] ! 0) (new_Panel 80 80 1) = Inr None \<and>
   find_position ([sheet_80, new_StockSheet 100 100] ! 1) (new_Panel 80 80 1) =
     Inr (Some (0, 0, False)) \<and>
   allocate (100, 100) [sheet_80, new_StockSheet 100 100] [new_Panel 80 80 1] =
     Some (Inr [sheet_80, sheet_80])"
proof -
  let ?p = "new_Panel 80 80 1"
  let ?sheets = "[sheet_80, new_StockSheet 100 100]"
  have q: "quantity ?p = 1" by (simp add: new_Panel_def)
  have f0: "\<forall>j<1. find_position (?sheets ! j) ?p = Inr None"
    by (simp add: scenarioB_second)
  have f1: "find_position (?sheets ! 1) ?p = Inr (Some (0, 0, False))"
    by (simp add: scenarioB_first)
  have len: "1 < length ?sheets" by simp
  from len f1 f0
  have "allocate (100, 100) ?sheets [?p] =
      allocate (100, 100) (?sheets[1 := fst (place (?sheets ! 1) ?p (0, 0, False))]) []"
    by (intro first_fit_allocation
        [OF q, of ?sheets 100 100 "[]", THEN conjunct1, rule_format, of 1 "(0, 0, False)"] conjI)
  also have "\<dots> = Some (Inr [sheet_80, sheet_80])"
    by (subst allocate.simps)
      (simp add: place_def Let_def new_Panel_def new_StockSheet_def sheet_80_def)
  finally show ?thesis using q f0 f1 by simp
qed

section \<open>Scenario B\<close>

text \<open>
  C8: on stock 100 x 100 with one spec 80 x 80 of quantity 2, \<open>optimize_layout\<close>
  returns exactly two sheets, each with exactly one rectangle 80 x 80 and efficiency 64.
\<close>

theorem scenario_B_two_sheets:
  "optimize_layout 100 100 [new_Panel 80 80 2] =
     Some (Inr
       [\<lparr>sheet_width = 100, sheet_height = 100,
          used_space = [\<lparr>rect_x = 0, rect_y = 0, rect_w = 80, rect_h = 80,
             rect_panel = \<lparr>width = 80, height = 80, quantity = 0, position = Some (0, 0),
                            rotated = False\<rparr>\<rparr>],
          efficiency = 64\<rparr>,
        \<lparr>sheet_width = 100, sheet_height = 100,
          used_space = [\<lparr>rect_x = 0, rect_y = 0, rect_w = 80, rect_h = 80,
             rect_panel = \<lparr>width = 80, height = 80, quantity = 0, position = Some (0, 0),
                            rotated = False\<rparr>\<rparr>],
          efficiency = 64\<rparr>])"
  by (simp add: optimize_layout_eq scenarioB_queue scenarioB_place1 scenarioB_place2)
    (simp add: sheet_80_def used_area_def float_product_not_zero)

section \<open>The step of the grid\<close>

text \<open>
  C9: the step of the fallback grid scan is 0.001 times the smallest of the panel's width
  and height and the sheet's width and height (line 27), for every panel and sheet. With
  \<open>s\<close> that value, and the step of line 27 other than \<open>0.0\<close> (on a step of
  zero \<open>np.arange\<close> raises and nothing is scanned): whenever
  \<open>find_position\<close> returns a position
  of an orientation that has no valid priority position, so a position found by the scan,
  its coordinates are \<open>i * s\<close> and \<open>j * s\<close> with \<open>i\<close> and \<open>j\<close> below the
  lengths of the two ranges of lines 84 and 85, and no valid point of that lattice
  precedes it in (y, then x). When \<open>find_position\<close> reports no position, no point of
  the lattice of an orientation that fits is valid.
\<close>

theorem fallback_scan_runs_on_thousandth_lattice:
  assumes s: "s = (1 / 1000) *
      Min {width panel, height panel, sheet_width sheet, sheet_height sheet}"
    and nz': "step_size sheet panel \<noteq> 0"
  shows "(\<forall>x y rot w h.
            find_position sheet panel = Inr (Some (x, y, rot)) \<and>
            w = (if rot then height panel else width panel) \<and>
            h = (if rot then width panel else height panel) \<and>
            filter (valid sheet w h) (priority_positions sheet w h) = [] \<longrightarrow>
            (\<exists>i j. i < nat \<lceil>(sheet_width sheet - w + s) / s\<rceil> \<and>
                   j < nat \<lceil>(sheet_height sheet - h + s) / s\<rceil> \<and>
                   x = rat_of_nat i * s \<and> y = rat_of_nat j * s) \<and>
            (\<forall>i j. i < nat \<lceil>(sheet_width sheet - w + s) / s\<rceil> \<and>
                   j < nat \<lceil>(sheet_height sheet - h + s) / s\<rceil> \<and>
                   valid sheet w h (rat_of_nat i * s, rat_of_nat j * s) \<longrightarrow>
                   y < rat_of_nat j * s \<or> (y = rat_of_nat j * s \<and> x \<le> rat_of_nat i * s))) \<and>
         (find_position sheet panel = Inr None \<longrightarrow>
            (\<forall>rot w h i j.
               w = (if rot then height panel else width panel) \<and>
               h = (if rot then width panel else height panel) \<and>
               w \<le> sheet_width sheet \<and> h \<le> sheet_height sheet \<and>
               i < nat \<lceil>(sheet_width sheet - w + s) / s\<rceil> \<and>
               j < nat \<lceil>(sheet_height sheet - h + s) / s\<rceil> \<longrightarrow>
               \<not> valid sheet w h (rat_of_nat i * s, rat_of_nat j * s)))"
proof (intro conjI allI impI)
  have step: "step_size sheet panel = s" by (simp only: s step_size_Min [OF nz'])
  fix x y rot w h
  assume a: "find_position sheet panel = Inr (Some (x, y, rot)) \<and>
      w = (if rot then height panel else width panel) \<and>
      h = (if rot then width panel else height panel) \<and>
      filter (valid sheet w h) (priority_positions sheet w h) = []"
  then have w: "w = oriented_w panel rot" and h: "h = oriented_h panel rot"
    by (simp_all add: oriented_w_def oriented_h_def)
  from find_position_best_of_searched [OF nz'] a
  have best: "is_best (searched_candidates sheet s (orientations sheet panel) [])
      (Some (x, y, rot))"
    by (auto simp: step)
  then have mem: "(x, y, rot) \<in> set (searched_candidates sheet s (orientations sheet panel) [])"
    and low: "\<forall>(x', y', rot') \<in> set (searched_candidates sheet s (orientations sheet panel) []).
        y < y' \<or> (y = y' \<and> x \<le> x')"
    by (auto simp: is_best_def list_all_iff)
  have noprio: "\<forall>w' h'. (w', h', rot) \<in> set (orientations sheet panel) \<longrightarrow>
      filter (valid sheet w' h') (priority_positions sheet w' h') = []"
    using orientations_set [of _ sheet panel] a w h by fastforce
  from searched_candidates_from_grid [OF mem _ noprio] obtain w' h' where
    o: "(w', h', rot) \<in> set (orientations sheet panel)"
    and g: "(x, y) \<in> set (filter (valid sheet w' h') (grid_positions sheet w' h' s))"
    and all: "\<forall>p \<in> set (filter (valid sheet w' h') (grid_positions sheet w' h' s)).
        (fst p, snd p, rot) \<in> set (searched_candidates sheet s (orientations sheet panel) [])"
    by auto
  from o orientations_set [of "(w', h', rot)" sheet panel] w h
  have wh: "w' = w" "h' = h" by auto
  from g wh show "\<exists>i j. i < nat \<lceil>(sheet_width sheet - w + s) / s\<rceil> \<and>
      j < nat \<lceil>(sheet_height sheet - h + s) / s\<rceil> \<and>
      x = rat_of_nat i * s \<and> y = rat_of_nat j * s"
    by (simp add: grid_positions_lattice)
  fix i j
  assume b: "i < nat \<lceil>(sheet_width sheet - w + s) / s\<rceil> \<and>
      j < nat \<lceil>(sheet_height sheet - h + s) / s\<rceil> \<and>
      valid sheet w h (rat_of_nat i * s, rat_of_nat j * s)"
  then have "(rat_of_nat i * s, rat_of_nat j * s) \<in> set (grid_positions sheet w h s)"
    by (subst grid_positions_lattice) blast
  with b wh all
  have "(rat_of_nat i * s, rat_of_nat j * s, rot) \<in>
      set (searched_candidates sheet s (orientations sheet panel) [])"
    by fastforce
  with low show "y < rat_of_nat j * s \<or> (y = rat_of_nat j * s \<and> x \<le> rat_of_nat i * s)"
    by fastforce
next
  have step: "step_size sheet panel = s" by (simp only: s step_size_Min [OF nz'])
  fix rot w h i j
  assume none: "find_position sheet panel = Inr None"
    and b: "w = (if rot then height panel else width panel) \<and>
      h = (if rot then width panel else height panel) \<and>
      w \<le> sheet_width sheet \<and> h \<le> sheet_height sheet \<and>
      i < nat \<lceil>(sheet_width sheet - w + s) / s\<rceil> \<and>
      j < nat \<lceil>(sheet_height sheet - h + s) / s\<rceil>"
  from find_position_best_of_searched [OF nz'] none step
  have fail: "list_all (both_phases_fail sheet s) (orientations sheet panel)" by simp
  have "(w, h, False) \<in> set (orientations sheet panel) \<or>
      (w, h, True) \<in> set (orientations sheet panel)"
    using b by (cases rot; cases "width panel = height panel") (auto simp: orientations_set_eq)
  with fail have "both_phases_fail sheet s (w, h, False) \<or> both_phases_fail sheet s (w, h, True)"
    by (auto simp: list_all_iff)
  with b have empty: "filter (valid sheet w h) (grid_positions sheet w h s) = []"
    by (auto simp: both_phases_fail_triple)
  from b have "(rat_of_nat i * s, rat_of_nat j * s) \<in> set (grid_positions sheet w h s)"
    by (subst grid_positions_lattice) blast
  with empty show "\<not> valid sheet w h (rat_of_nat i * s, rat_of_nat j * s)"
    by (auto simp: filter_empty_conv)
qed

theorem fallback_scan_runs_on_thousandth_lattice_witness:
  "(2999 / 1000 :: rat) = (1 / 1000) *
      Min {width (new_Panel 3999 2999 1), height (new_Panel 3999 2999 1),
           sheet_width strip_sheet, sheet_height strip_sheet} \<and>
   step_size strip_sheet (new_Panel 3999 2999 1) \<noteq> 0 \<and>
   find_position strip_sheet (new_Panel 3999 2999 1) = Inr (Some (0, 2999 / 1000, False)) \<and>
   filter (valid strip_sheet 3999 2999) (priority_positions strip_sheet 3999 2999) = [] \<and>
   (\<exists>i j. i < nat \<lceil>(sheet_width strip_sheet - 3999 + 2999 / 1000) / (2999 / 1000)\<rceil> \<and>
          j < nat \<lceil>(sheet_height strip_sheet - 2999 + 2999 / 1000) / (2999 / 1000)\<rceil> \<and>
          (0 :: rat) = rat_of_nat i * (2999 / 1000) \<and>
          (2999 / 1000 :: rat) = rat_of_nat j * (2999 / 1000))"
proof -
  let ?p = "new_Panel 3999 2999 1"
  have s: "(2999 / 1000 :: rat) = (1 / 1000) *
      Min {width ?p, height ?p, sheet_width strip_sheet, sheet_height strip_sheet}"
    by (simp add: new_Panel_def strip_sheet_def)
  have nz: "step_size strip_sheet ?p \<noteq> 0"
    by (simp add: step_size_normal new_Panel_def strip_sheet_def)
  have w: "(3999 :: rat) = (if False then height ?p else width ?p)"
    and h: "(2999 :: rat) = (if False then width ?p else height ?p)"
    by (simp_all add: new_Panel_def)
  from fallback_scan_runs_on_thousandth_lattice [OF s nz, THEN conjunct1, rule_format,
      of 0 "2999 / 1000" False 3999 2999] overshoot_second strip_priority w h
  have "\<exists>i j. i < nat \<lceil>(sheet_width strip_sheet - 3999 + 2999 / 1000) / (2999 / 1000)\<rceil> \<and>
          j < nat \<lceil>(sheet_height strip_sheet - 2999 + 2999 / 1000) / (2999 / 1000)\<rceil> \<and>
          (0 :: rat) = rat_of_nat i * (2999 / 1000) \<and>
          (2999 / 1000 :: rat) = rat_of_nat j * (2999 / 1000)"
    by blast
  with s nz overshoot_second strip_priority show ?thesis by blast
qed

section \<open>The empty request\<close>

text \<open>
  C10, amended: on an empty list of panel specs and positive stock dimensions whose
  product does not underflow to zero in floating point (it exceeds \<open>2 ^ -1075\<close>),
  \<open>optimize_layout\<close> returns exactly one sheet, with no placed rectangle and
  efficiency 0; it does not return an empty list of sheets.
\<close>

theorem empty_request_one_empty_sheet:
  assumes "0 < W" and "0 < H" and "1 / 2 ^ 1075 < W * H"
  shows "optimize_layout W H [] =
    Some (Inr [\<lparr>sheet_width = W, sheet_height = H, used_space = [], efficiency = 0\<rparr>])"
proof -
  from assms(3) have "\<not> float_product_is_zero W H"
    by (simp add: float_product_is_zero_def)
  then show ?thesis
    by (simp add: optimize_layout_eq panels_copy_def expand_def new_StockSheet_def used_area_def)
qed

theorem empty_request_one_empty_sheet_witness:
  "optimize_layout 100 100 [] =
    Some (Inr [\<lparr>sheet_width = 100, sheet_height = 100, used_space = [], efficiency = 0\<rparr>])"
  using empty_request_one_empty_sheet [of 100 100] by simp

text \<open>
  C10 as stated covers all positive stock dimensions. On stock \<open>2 ^ -600\<close> by
  \<open>2 ^ -600\<close> the float product of the dimensions is \<open>0.0\<close>, and line 165 raises
  \<open>ZeroDivisionError\<close> on the one empty sheet.
\<close>

theorem empty_request_underflow_counterexample:
  "(0 :: rat) < 1 / 2 ^ 600 \<and>
   optimize_layout (1 / 2 ^ 600) (1 / 2 ^ 600) [] = Some (Inl ZeroDivisionError)"
proof -
  have "optimize_layout (1 / 2 ^ 600) (1 / 2 ^ 600) [] = Some (Inl ZeroDivisionError)"
    by (rule optimize_layout_underflow [OF tiny_product]) simp
  then show ?thesis by simp
qed

end
